theory Spec2Isabelle
  imports Complex_Main "HOL-Library.Monad_Syntax"
begin

section \<open>The data model\<close>

subsection \<open>float64\<close>

text \<open>
  A Go \<^verbatim>\<open>float64\<close> is a finite number, one of the two infinities or NaN. Finite
  values are modelled as exact reals: rounding, overflow and the sign of zero are not
  modelled (zero divides as +0). The IEEE 754 special values are kept, because the
  code produces them from finite input: \<^verbatim>\<open>math.Inf\<close> sentinels, a division by
  zero, the square root of a negative number, the logarithm of a non-positive one.
\<close>

datatype float64 = Fin real | PInf | NInf | NaN

instantiation float64 :: "{zero, plus, uminus, minus, times, inverse, ord}"
begin

definition zero_float64 :: float64 where
  "zero_float64 = Fin 0"

fun plus_float64 :: "float64 \<Rightarrow> float64 \<Rightarrow> float64" where
  "plus_float64 NaN _ = NaN"
| "plus_float64 _ NaN = NaN"
| "plus_float64 (Fin a) (Fin b) = Fin (a + b)"
| "plus_float64 PInf NInf = NaN"
| "plus_float64 NInf PInf = NaN"
| "plus_float64 PInf _ = PInf"
| "plus_float64 _ PInf = PInf"
| "plus_float64 NInf _ = NInf"
| "plus_float64 _ NInf = NInf"

fun uminus_float64 :: "float64 \<Rightarrow> float64" where
  "uminus_float64 (Fin a) = Fin (- a)"
| "uminus_float64 PInf = NInf"
| "uminus_float64 NInf = PInf"
| "uminus_float64 NaN = NaN"

definition minus_float64 :: "float64 \<Rightarrow> float64 \<Rightarrow> float64" where
  "minus_float64 a b = a + (- b)"

fun times_float64 :: "float64 \<Rightarrow> float64 \<Rightarrow> float64" where
  "times_float64 NaN _ = NaN"
| "times_float64 _ NaN = NaN"
| "times_float64 (Fin a) (Fin b) = Fin (a * b)"
| "times_float64 (Fin a) PInf = (if a = 0 then NaN else if 0 < a then PInf else NInf)"
| "times_float64 (Fin a) NInf = (if a = 0 then NaN else if 0 < a then NInf else PInf)"
| "times_float64 PInf (Fin b) = (if b = 0 then NaN else if 0 < b then PInf else NInf)"
| "times_float64 NInf (Fin b) = (if b = 0 then NaN else if 0 < b then NInf else PInf)"
| "times_float64 PInf PInf = PInf"
| "times_float64 PInf NInf = NInf"
| "times_float64 NInf PInf = NInf"
| "times_float64 NInf NInf = PInf"

fun divide_float64 :: "float64 \<Rightarrow> float64 \<Rightarrow> float64" where
  "divide_float64 NaN _ = NaN"
| "divide_float64 _ NaN = NaN"
| "divide_float64 (Fin a) (Fin b) =
     (if b \<noteq> 0 then Fin (a / b)
      else if a = 0 then NaN else if 0 < a then PInf else NInf)"
| "divide_float64 (Fin a) PInf = Fin 0"
| "divide_float64 (Fin a) NInf = Fin 0"
| "divide_float64 PInf (Fin b) = (if 0 \<le> b then PInf else NInf)"
| "divide_float64 NInf (Fin b) = (if 0 \<le> b then NInf else PInf)"
| "divide_float64 PInf PInf = NaN"
| "divide_float64 PInf NInf = NaN"
| "divide_float64 NInf PInf = NaN"
| "divide_float64 NInf NInf = NaN"

definition inverse_float64 :: "float64 \<Rightarrow> float64" where
  "inverse_float64 a = divide (Fin 1) a"

text \<open>The comparisons of Go: every comparison with NaN is false.\<close>

fun less_float64 :: "float64 \<Rightarrow> float64 \<Rightarrow> bool" where
  "less_float64 NaN _ = False"
| "less_float64 _ NaN = False"
| "less_float64 (Fin a) (Fin b) = (a < b)"
| "less_float64 (Fin a) PInf = True"
| "less_float64 (Fin a) NInf = False"
| "less_float64 PInf _ = False"
| "less_float64 NInf (Fin b) = True"
| "less_float64 NInf PInf = True"
| "less_float64 NInf NInf = False"

definition less_eq_float64 :: "float64 \<Rightarrow> float64 \<Rightarrow> bool" where
  "less_eq_float64 a b = (a < b \<or> (a = b \<and> a \<noteq> NaN))"

instance ..

end

text \<open>Go's \<^verbatim>\<open>==\<close> on float64: NaN is not equal to itself.\<close>

definition feq :: "float64 \<Rightarrow> float64 \<Rightarrow> bool" where
  "feq a b = (a = b \<and> a \<noteq> NaN)"

text \<open>\<^verbatim>\<open>math.Sqrt\<close>, \<^verbatim>\<open>math.Log\<close> and \<^verbatim>\<open>math.Abs\<close> with their special cases.\<close>

fun Sqrt :: "float64 \<Rightarrow> float64" where
  "Sqrt (Fin a) = (if a < 0 then NaN else Fin (sqrt a))"
| "Sqrt PInf = PInf"
| "Sqrt NInf = NaN"
| "Sqrt NaN = NaN"

fun Log :: "float64 \<Rightarrow> float64" where
  "Log (Fin a) = (if a < 0 then NaN else if a = 0 then NInf else Fin (ln a))"
| "Log PInf = PInf"
| "Log NInf = NaN"
| "Log NaN = NaN"

fun Abs :: "float64 \<Rightarrow> float64" where
  "Abs (Fin a) = Fin \<bar>a\<bar>"
| "Abs PInf = PInf"
| "Abs NInf = PInf"
| "Abs NaN = NaN"

text \<open>
  \<^verbatim>\<open>math.Round\<close> rounds half away from zero. The conversion \<^verbatim>\<open>int(x)\<close> truncates a
  finite value; for NaN and the infinities the Go specification leaves the result to
  the implementation, so the model leaves it unspecified.
\<close>

fun Round :: "float64 \<Rightarrow> float64" where
  "Round (Fin a) = Fin (of_int (if 0 \<le> a then \<lfloor>a + 1 / 2\<rfloor> else - \<lfloor>- a + 1 / 2\<rfloor>))"
| "Round PInf = PInf"
| "Round NInf = NInf"
| "Round NaN = NaN"

fun toInt :: "float64 \<Rightarrow> int" where
  "toInt (Fin a) = (if 0 \<le> a then \<lfloor>a\<rfloor> else - \<lfloor>- a\<rfloor>)"
| "toInt PInf = undefined"
| "toInt NInf = undefined"
| "toInt NaN = undefined"

text \<open>\<^verbatim>\<open>float64(i)\<close> for an integer \<open>i\<close>.\<close>

definition float64_of_int :: "int \<Rightarrow> float64" where
  "float64_of_int i = Fin (of_int i)"

fun is_Fin :: "float64 \<Rightarrow> bool" where
  "is_Fin (Fin a) = True"
| "is_Fin _ = False"

fun the_Fin :: "float64 \<Rightarrow> real" where
  "the_Fin (Fin a) = a"
| "the_Fin _ = 0"

text \<open>
  Addition of float64 values (without rounding) is associative and commutative with
  unit 0, so sums over float64 are written with the library's \<open>\<Sum>\<close>.
\<close>

lemma plus_float64_assoc: "(a + b) + c = a + (b + (c::float64))"
  by (cases a; cases b; cases c) simp_all

lemma plus_float64_commute: "a + b = b + (a::float64)"
  by (cases a; cases b) simp_all

lemma plus_float64_zero: "0 + a = (a::float64)"
  by (cases a) (simp_all add: zero_float64_def)

instance float64 :: comm_monoid_add
proof
  fix a b c :: float64
  show "a + b + c = a + (b + c)" by (rule plus_float64_assoc)
  show "a + b = b + a" by (rule plus_float64_commute)
  show "0 + a = a" by (rule plus_float64_zero)
qed

subsection \<open>Slices and run-time panics\<close>

text \<open>
  A slice that is only read is a list. Where the code can return or store the
  \<^verbatim>\<open>nil\<close> slice, the type \<open>'a slice\<close> keeps it apart from an empty one.
  Reading a slice out of range and allocating one with a negative size panic in Go; a
  panic is the value \<open>None\<close> of the option monad, so a model returns \<open>Some\<close>
  exactly when the Go function returns.
\<close>

datatype 'a slice = nil | Slice "'a list"

fun elems :: "'a slice \<Rightarrow> 'a list" where
  "elems nil = []"
| "elems (Slice xs) = xs"

definition idx :: "'a list \<Rightarrow> nat \<Rightarrow> 'a option" where
  "idx xs i = (if i < length xs then Some (xs ! i) else None)"

text \<open>A \<^verbatim>\<open>for\<close> loop over the elements of \<open>xs\<close> whose body may panic.\<close>

primrec forM :: "'a list \<Rightarrow> ('a \<Rightarrow> 's \<Rightarrow> 's option) \<Rightarrow> 's \<Rightarrow> 's option" where
  "forM [] body s = Some s"
| "forM (x # xs) body s = (case body x s of None \<Rightarrow> None | Some s' \<Rightarrow> forM xs body s')"

subsection \<open>The structs\<close>

text \<open>\<^verbatim>\<open>data.PriceData\<close>; a \<^verbatim>\<open>time.Time\<close> is kept as its Unix seconds.\<close>

record PriceData =
  Ticker :: string
  Closes :: "float64 list"
  Dates :: "int list"

record AssetStats =
  Ticker :: string
  AnnualReturn :: float64
  AnnualVolatility :: float64

record FrontierPoint =
  Return :: float64
  Risk :: float64
  Weights :: "float64 slice"

record SimulatedPortfolio =
  Weights :: "float64 slice"
  Return :: float64
  Risk :: float64
  Sharpe :: float64

record OptimizationResult =
  MonteCarloPoints :: "SimulatedPortfolio list"
  FrontierPoints :: "FrontierPoint slice"
  MaxSharpe :: SimulatedPortfolio
  MinVariance :: SimulatedPortfolio

section \<open>ReturnSeries Builder\<close>

text \<open>
  \<^verbatim>\<open>Returns(prices)\<close> allocates \<^verbatim>\<open>len(prices)-1\<close> entries, which panics for an empty
  input, and fills entry \<open>i - 1\<close> with \<^verbatim>\<open>math.Log(prices[i] / prices[i-1])\<close>.
\<close>

definition Returns :: "float64 list \<Rightarrow> float64 list option" where
  "Returns prices =
     (if length prices = 0 then None
      else Some (fold (\<lambda>i ret. ret[i - 1 := Log (prices ! i / prices ! (i - 1))])
                   [1..<length prices] (replicate (length prices - 1) 0)))"


section \<open>Asset Statistics and Covariance Estimator\<close>

definition mean :: "float64 list \<Rightarrow> float64" where
  "mean xs = fold (\<lambda>x sum. sum + x) xs 0 / Fin (real (length xs))"

definition MaxInt32 :: int where
  "MaxInt32 = 2147483647"

text \<open>
  \<^verbatim>\<open>PrepareAssets(priceData)\<close> returns \<^verbatim>\<open>(tickers, meanReturns, covMatrix, returnMatrix,
  stats)\<close>. The only panic is that of \<^verbatim>\<open>Returns\<close>: every other index is in range by
  construction.
\<close>

definition PrepareAssets ::
  "PriceData list \<Rightarrow>
   (string list \<times> float64 list \<times> float64 list list \<times> float64 list list \<times> AssetStats list) option"
where
  "PrepareAssets priceData = do {
     let tradingDays = Fin 252;
     (allReturns, minLen) \<leftarrow>
       forM [0..<length priceData] (\<lambda>i (allReturns, minLen). do {
           r \<leftarrow> Returns (Closes (priceData ! i));
           Some (allReturns[i := r],
                 if int (length r) < minLen then int (length r) else minLen) })
         (replicate (length priceData) [], MaxInt32);
     let returnMatrix =
       fold (\<lambda>i returnMatrix.
               returnMatrix[i := drop (length (allReturns ! i) - nat minLen) (allReturns ! i)])
         [0..<length allReturns] (replicate (length priceData) []);
     let n = length priceData;
     let (tickers, meanReturns, stats) =
       fold (\<lambda>i (tickers, meanReturns, stats).
               let pd = priceData ! i;
                   m = mean (returnMatrix ! i);
                   variance = fold (\<lambda>r variance. let d = r - m in variance + d * d)
                                (returnMatrix ! i) 0;
                   variance = variance / float64_of_int (minLen - 1)
               in (tickers[i := PriceData.Ticker pd],
                   meanReturns[i := m * tradingDays],
                   stats[i := \<lparr>AssetStats.Ticker = PriceData.Ticker pd,
                                AnnualReturn = m * tradingDays,
                                AnnualVolatility = Sqrt (variance * tradingDays)\<rparr>]))
         [0..<n]
         (replicate n [], replicate n 0,
          replicate n \<lparr>AssetStats.Ticker = [], AnnualReturn = 0, AnnualVolatility = 0\<rparr>);
     let covMatrix =
       fold (\<lambda>i covMatrix.
               let mi = mean (returnMatrix ! i) in
               fold (\<lambda>j covMatrix.
                       let mj = mean (returnMatrix ! j);
                           cov = fold (\<lambda>k cov. cov + (returnMatrix ! i ! k - mi) *
                                                       (returnMatrix ! j ! k - mj))
                                   [0..<nat minLen] 0;
                           cov = cov / float64_of_int (minLen - 1) * tradingDays;
                           covMatrix = covMatrix[i := (covMatrix ! i)[j := cov]];
                           covMatrix = covMatrix[j := (covMatrix ! j)[i := cov]]
                       in covMatrix)
                 [i..<n] covMatrix)
         [0..<n] (replicate n (replicate n 0));
     Some (tickers, meanReturns, covMatrix, returnMatrix, stats)
   }"

section \<open>Portfolio Scorer\<close>

text \<open>
  \<^verbatim>\<open>PortfolioStats(weights, meanReturns, covMatrix, riskFreeRate)\<close>: the named results
  \<^verbatim>\<open>ret\<close>, \<^verbatim>\<open>vol\<close>, \<^verbatim>\<open>sharpe\<close> start at zero; \<^verbatim>\<open>sharpe\<close> is assigned only when
  \<^verbatim>\<open>vol > 0\<close>.
\<close>

definition PortfolioStats ::
  "float64 list \<Rightarrow> float64 list \<Rightarrow> float64 list list \<Rightarrow> float64 \<Rightarrow> (float64 \<times> float64 \<times> float64) option"
where
  "PortfolioStats weights meanReturns covMatrix riskFreeRate = do {
     let n = length weights;
     ret \<leftarrow> forM [0..<n] (\<lambda>i ret. do {
              m \<leftarrow> idx meanReturns i;
              Some (ret + weights ! i * m) }) 0;
     variance \<leftarrow> forM [0..<n] (\<lambda>i variance.
              forM [0..<n] (\<lambda>j variance. do {
                row \<leftarrow> idx covMatrix i;
                c \<leftarrow> idx row j;
                Some (variance + weights ! i * weights ! j * c) }) variance) 0;
     let vol = Sqrt variance;
     let sharpe = (if vol > 0 then (ret - riskFreeRate) / vol else 0);
     Some (ret, vol, sharpe)
   }"

text \<open>The index reads of \<^verbatim>\<open>PortfolioStats\<close> for \<open>n\<close> weights are all in range.\<close>

definition stats_defined :: "nat \<Rightarrow> float64 list \<Rightarrow> float64 list list \<Rightarrow> bool" where
  "stats_defined n meanReturns covMatrix =
     (n \<le> length meanReturns \<and>
      (0 < n \<longrightarrow> n \<le> length covMatrix \<and> list_all (\<lambda>row. n \<le> length row) (take n covMatrix)))"

section \<open>Monte Carlo Sampler\<close>

text \<open>
  The generator of \<^verbatim>\<open>math/rand\<close> is not part of the repository: its state is a type
  \<open>'g\<close>, and \<^verbatim>\<open>rand.New(rand.NewSource(seed))\<close> and \<^verbatim>\<open>rng.ExpFloat64()\<close> are the
  parameters \<open>NewSource\<close> and \<open>ExpFloat64\<close>; a draw returns the value and the
  generator's next state.
\<close>

definition randomWeights :: "('g \<Rightarrow> float64 \<times> 'g) \<Rightarrow> nat \<Rightarrow> 'g \<Rightarrow> float64 list \<times> 'g" where
  "randomWeights ExpFloat64 n rng =
     (let (w, sum, rng) =
            fold (\<lambda>i (w, sum, rng).
                    let (x, rng) = ExpFloat64 rng in (w[i := x], sum + x, rng))
              [0..<n] (replicate n 0, 0, rng);
          w = fold (\<lambda>i w. w[i := w ! i / sum]) [0..<n] w
      in (w, rng))"

section \<open>Efficient Frontier Extractor: the sample filter\<close>

text \<open>
  The comparison handed to \<^verbatim>\<open>sort.Slice\<close>: by risk, ties by return. \<^verbatim>\<open>sort.Slice\<close>
  itself belongs to the standard library and is the parameter \<open>sortSlice\<close>.
\<close>

definition less_by_risk :: "SimulatedPortfolio \<Rightarrow> SimulatedPortfolio \<Rightarrow> bool" where
  "less_by_risk a b =
     (if feq (Risk a) (Risk b) then Return a < Return b else Risk a < Risk b)"

definition scan_body ::
  "SimulatedPortfolio \<Rightarrow> FrontierPoint list \<times> float64 \<Rightarrow> FrontierPoint list \<times> float64"
where
  "scan_body p = (\<lambda>(efficient, bestReturn).
     if Return p > bestReturn
     then (efficient @ [\<lparr>FrontierPoint.Return = Return p,
                          FrontierPoint.Risk = Risk p,
                          FrontierPoint.Weights = Weights p\<rparr>],
           Return p)
     else (efficient, bestReturn))"

definition resample_body ::
  "FrontierPoint list \<Rightarrow> float64 \<Rightarrow> nat \<Rightarrow> FrontierPoint list \<Rightarrow> FrontierPoint list option"
where
  "resample_body efficient step i resampled =
     (let idx0 = toInt (Round (float64_of_int (int i) * step));
          idx1 = (if idx0 \<ge> int (length efficient) then int (length efficient) - 1 else idx0)
      in if idx1 < 0 then None
         else Some (resampled @ [efficient ! nat idx1]))"

definition computeFrontierLineFromSimulations ::
  "((SimulatedPortfolio \<Rightarrow> SimulatedPortfolio \<Rightarrow> bool) \<Rightarrow> SimulatedPortfolio list \<Rightarrow> SimulatedPortfolio list)
   \<Rightarrow> SimulatedPortfolio list \<Rightarrow> int \<Rightarrow> FrontierPoint slice option"
where
  "computeFrontierLineFromSimulations sortSlice sims maxPoints =
     (if length sims = 0 then Some nil
      else
        let sorted = sortSlice less_by_risk sims;
            (efficient, bestReturn) = fold scan_body sorted ([], NInf)
        in if int (length efficient) \<le> maxPoints then Some (Slice efficient)
           else
             let step = float64_of_int (int (length efficient) - 1) /
                        float64_of_int (maxPoints - 1)
             in if maxPoints < 0 then None
                else map_option Slice
                       (forM [0..<nat maxPoints] (resample_body efficient step) []))"

text \<open>
  \<^verbatim>\<open>RunMonteCarlo\<close> (the revision with the sample filter). The capacity \<^verbatim>\<open>numSims\<close>
  of \<^verbatim>\<open>make\<close> panics when negative. A struct literal leaves the fields it does not
  name at their zero values: \<^verbatim>\<open>nil\<close> weights and 0.
\<close>

type_synonym 'g sampler_state =
  "SimulatedPortfolio list \<times> SimulatedPortfolio \<times> SimulatedPortfolio \<times> 'g"

definition RunMonteCarlo_body ::
  "('g \<Rightarrow> float64 \<times> 'g) \<Rightarrow> float64 list \<Rightarrow> float64 list list \<Rightarrow> float64 \<Rightarrow> nat \<Rightarrow>
   'g sampler_state \<Rightarrow> 'g sampler_state option"
where
  "RunMonteCarlo_body ExpFloat64 meanReturns covMatrix riskFreeRate n =
     (\<lambda>(sims, maxSharpe, minVar, rng). do {
        let (w, rng) = randomWeights ExpFloat64 n rng;
        (ret, vol, sharpe) \<leftarrow> PortfolioStats w meanReturns covMatrix riskFreeRate;
        let sp = \<lparr>Weights = Slice w, Return = ret, Risk = vol, Sharpe = sharpe\<rparr>;
        let sims = sims @ [sp];
        let maxSharpe = (if sharpe > Sharpe maxSharpe then sp else maxSharpe);
        let minVar = (if vol < Risk minVar then sp else minVar);
        Some (sims, maxSharpe, minVar, rng) })"

definition RunMonteCarlo ::
  "(int \<Rightarrow> 'g) \<Rightarrow> ('g \<Rightarrow> float64 \<times> 'g) \<Rightarrow>
   ((SimulatedPortfolio \<Rightarrow> SimulatedPortfolio \<Rightarrow> bool) \<Rightarrow> SimulatedPortfolio list \<Rightarrow> SimulatedPortfolio list)
   \<Rightarrow> float64 list \<Rightarrow> float64 list list \<Rightarrow> int \<Rightarrow> float64 \<Rightarrow> OptimizationResult option"
where
  "RunMonteCarlo NewSource ExpFloat64 sortSlice meanReturns covMatrix numSims riskFreeRate =
     (if numSims < 0 then None
      else do {
        let rng = NewSource 42;
        let n = length meanReturns;
        (sims, maxSharpe, minVar, rng) \<leftarrow>
          forM [0..<nat numSims]
            (\<lambda>s. RunMonteCarlo_body ExpFloat64 meanReturns covMatrix riskFreeRate n)
            ([],
             \<lparr>Weights = nil, Return = 0, Risk = 0, Sharpe = NInf\<rparr>,
             \<lparr>Weights = nil, Return = 0, Risk = PInf, Sharpe = 0\<rparr>,
             rng);
        frontier \<leftarrow> computeFrontierLineFromSimulations sortSlice sims 60;
        Some \<lparr>MonteCarloPoints = sims, FrontierPoints = frontier,
              MaxSharpe = maxSharpe, MinVariance = minVar\<rparr>
      })"

section \<open>Efficient Frontier Extractor: the gradient sweep\<close>

text \<open>
  The two earlier revisions of the optimizer sweep target returns and call
  \<^verbatim>\<open>minVarForReturn\<close> at each. Both start with the gradient \<open>2 * Cov * w\<close>.
\<close>

definition gradient :: "float64 list list \<Rightarrow> float64 list \<Rightarrow> nat \<Rightarrow> float64 list option" where
  "gradient covMatrix w n =
     forM [0..<n] (\<lambda>i grad. do {
         g \<leftarrow> forM [0..<n] (\<lambda>j g. do {
                row \<leftarrow> idx covMatrix i;
                c \<leftarrow> idx row j;
                Some (g + Fin 2 * c * w ! j) }) (grad ! i);
         Some (grad[i := g]) })
       (replicate n 0)"

definition clamp :: "float64 list \<Rightarrow> float64 list" where
  "clamp w = map (\<lambda>wi. if wi < 0 then 0 else wi) w"

definition dot :: "float64 list \<Rightarrow> float64 list \<Rightarrow> float64" where
  "dot w meanReturns = fold (\<lambda>i acc. acc + w ! i * meanReturns ! i) [0..<length w] 0"





text \<open>
  Second revision: the projection runs up to ten passes and leaves early once the
  return is within \<open>1e-10\<close> of the target; the weights are clamped afterwards and
  returned as they are.
\<close>

fun project_rev2 :: "float64 list \<Rightarrow> float64 \<Rightarrow> nat \<Rightarrow> float64 list \<Rightarrow> float64 list" where
  "project_rev2 meanReturns targetRet 0 w = w"
| "project_rev2 meanReturns targetRet (Suc passes) w =
     (let n = length meanReturns;
          sumW = fold (\<lambda>wi sumW. sumW + wi) w 0;
          w = map (\<lambda>wi. wi + (Fin 1 - sumW) / Fin (real n)) w;
          currRet = dot w meanReturns;
          retDiff = targetRet - currRet
      in if Abs retDiff < Fin (1 / 10 ^ 10) then w
         else
           let meanMean = mean meanReturns;
               sqDiffSum = fold (\<lambda>r acc. let d = r - meanMean in acc + d * d) meanReturns 0;
               w = (if sqDiffSum > Fin (1 / 10 ^ 12)
                    then map (\<lambda>i. w ! i + retDiff * (meanReturns ! i - meanMean) / sqDiffSum)
                           [0..<length w]
                    else w)
           in project_rev2 meanReturns targetRet passes w)"

definition step_rev2 ::
  "float64 list \<Rightarrow> float64 list list \<Rightarrow> float64 \<Rightarrow> float64 list \<Rightarrow> float64 \<Rightarrow> float64 list option"
where
  "step_rev2 meanReturns covMatrix targetRet w lr = do {
     let n = length meanReturns;
     grad \<leftarrow> gradient covMatrix w n;
     let w = map (\<lambda>i. w ! i - lr * grad ! i) [0..<length w];
     let w = project_rev2 meanReturns targetRet 10 w;
     Some (clamp w)
   }"

function loop_rev2 ::
  "float64 list \<Rightarrow> float64 list list \<Rightarrow> float64 \<Rightarrow> nat \<Rightarrow> float64 list \<Rightarrow> float64 \<Rightarrow> float64 slice option"
where
  "loop_rev2 meanReturns covMatrix targetRet iter w lr =
     (if iter < 5000 then
        (case step_rev2 meanReturns covMatrix targetRet w lr of
           None \<Rightarrow> None
         | Some w' \<Rightarrow>
             loop_rev2 meanReturns covMatrix targetRet (iter + 1) w'
               (if iter mod 1000 = 999 then lr * Fin (1 / 2) else lr))
      else Some (Slice w))"
  by pat_completeness auto
termination
  by (relation "measure (\<lambda>(meanReturns, covMatrix, targetRet, iter, w, lr). 5000 - iter)") auto

declare loop_rev2.simps [simp del]

definition minVarForReturn_rev2 ::
  "float64 list \<Rightarrow> float64 list list \<Rightarrow> float64 \<Rightarrow> float64 slice option"
where
  "minVarForReturn_rev2 meanReturns covMatrix targetRet =
     (let n = length meanReturns;
          w = replicate n (Fin 1 / Fin (real n))
      in loop_rev2 meanReturns covMatrix targetRet 0 w (Fin (1 / 100)))"



section \<open>Notions used in the statements\<close>

text \<open>
  The reconstruction of prices from a return series and the first price by cumulative
  exponentiation, as the specification words the round-trip law.
\<close>

definition reconstruct :: "real \<Rightarrow> real list \<Rightarrow> real list" where
  "reconstruct p0 rs = map (\<lambda>i. p0 * exp (\<Sum>k<i. rs ! k)) [0..<Suc (length rs)]"










text \<open>
  The filtered front of the sample filter, before resampling, and the index that the
  even stride selects for output position \<open>i\<close> from a front of \<open>L\<close> points under the
  budget \<open>K\<close>: \<open>i * (L - 1) / (K - 1)\<close>, rounded.
\<close>

definition front :: "((SimulatedPortfolio \<Rightarrow> SimulatedPortfolio \<Rightarrow> bool) \<Rightarrow> SimulatedPortfolio list \<Rightarrow> SimulatedPortfolio list)
   \<Rightarrow> SimulatedPortfolio list \<Rightarrow> FrontierPoint list" where
  "front sortSlice sims = fst (fold scan_body (sortSlice less_by_risk sims) ([], NInf))"

definition stride_index :: "nat \<Rightarrow> int \<Rightarrow> nat \<Rightarrow> nat" where
  "stride_index L K i = nat \<lfloor>real i * ((real L - 1) / (real_of_int K - 1)) + 1 / 2\<rfloor>"


text \<open>
  The notions of the statements on \<^verbatim>\<open>PrepareAssets\<close>: the return series of a price
  series as \<^verbatim>\<open>Returns\<close> computes it, the \<open>minLen\<close> that the first loop computes,
  the \<open>m\<close> most recent observations of a series, and the matrix of the truncated
  return series.
\<close>

definition returns_of :: "float64 list \<Rightarrow> float64 list" where
  "returns_of prices = map (\<lambda>i. Log (prices ! Suc i / prices ! i)) [0..<length prices - 1]"

definition minLen_of :: "PriceData list \<Rightarrow> int" where
  "minLen_of priceData =
     fold (\<lambda>pd m. if int (length (Closes pd) - 1) < m then int (length (Closes pd) - 1) else m)
       priceData MaxInt32"

definition recent :: "nat \<Rightarrow> 'a list \<Rightarrow> 'a list" where
  "recent m r = drop (length r - m) r"

definition return_matrix :: "PriceData list \<Rightarrow> float64 list list" where
  "return_matrix priceData =
     map (\<lambda>pd. recent (nat (minLen_of priceData)) (returns_of (Closes pd))) priceData"

text \<open>
  The sample covariance of two truncated return series with the divisor
  \<open>minLen - 1\<close>, annualized, the daily sample variance of one series, and the
  statistics of one asset, each as the code computes it.
\<close>

definition covariance_entry :: "float64 list \<Rightarrow> float64 list \<Rightarrow> int \<Rightarrow> float64" where
  "covariance_entry ri rj minLen =
     (\<Sum>k<nat minLen. (ri ! k - mean ri) * (rj ! k - mean rj)) / float64_of_int (minLen - 1) * Fin 252"

definition variance_of :: "float64 list \<Rightarrow> int \<Rightarrow> float64" where
  "variance_of r minLen =
     fold (\<lambda>x variance. variance + (x - mean r) * (x - mean r)) r 0 / float64_of_int (minLen - 1)"

definition stats_of :: "PriceData \<Rightarrow> float64 list \<Rightarrow> int \<Rightarrow> AssetStats" where
  "stats_of pd r minLen =
     \<lparr>AssetStats.Ticker = PriceData.Ticker pd, AnnualReturn = mean r * Fin 252,
      AnnualVolatility = Sqrt (variance_of r minLen * Fin 252)\<rparr>"

text \<open>
  Price data with a defined sample covariance: at least three prices, finite and greater
  than zero, and no more than \<open>2^31\<close> of them, so that the length of the return series
  is below the \<^verbatim>\<open>math.MaxInt32\<close> with which \<open>minLen\<close> starts.
\<close>

definition valid_prices :: "PriceData \<Rightarrow> bool" where
  "valid_prices pd =
     (3 \<le> length (Closes pd) \<and> length (Closes pd) \<le> 2147483648 \<and>
      list_all (\<lambda>p. is_Fin p \<and> 0 < p) (Closes pd))"

text \<open>
  The assets of the repository's test \<^verbatim>\<open>TestPrepareAssets\<close>, and two assets with two
  prices each.
\<close>

definition test_assets :: "PriceData list" where
  "test_assets =
     [\<lparr>PriceData.Ticker = ''A'', Closes = [Fin 100, Fin 105, Fin 110], Dates = []\<rparr>,
      \<lparr>PriceData.Ticker = ''B'', Closes = [Fin 100, Fin 110, Fin 121], Dates = []\<rparr>]"

definition short_assets :: "PriceData list" where
  "short_assets =
     [\<lparr>PriceData.Ticker = ''A'', Closes = [Fin 100, Fin 105], Dates = []\<rparr>,
      \<lparr>PriceData.Ticker = ''B'', Closes = [Fin 100, Fin 110], Dates = []\<rparr>]"

text \<open>
  For the proofs about the covariance loop: a square matrix, the two assignments
  \<^verbatim>\<open>covMatrix[i][j] = cov; covMatrix[j][i] = cov\<close>, and the index pairs the loop visits.
\<close>

definition square :: "nat \<Rightarrow> 'a list list \<Rightarrow> bool" where
  "square n M = (length M = n \<and> (\<forall>row\<in>set M. length row = n))"

definition set_sym :: "nat \<Rightarrow> nat \<Rightarrow> 'a \<Rightarrow> 'a list list \<Rightarrow> 'a list list" where
  "set_sym i j c M = (M[i := (M ! i)[j := c]])[j := ((M[i := (M ! i)[j := c]]) ! j)[i := c]]"

definition upper_pairs :: "nat \<Rightarrow> (nat \<times> nat) list" where
  "upper_pairs n = concat (map (\<lambda>i. map (Pair i) [i..<n]) [0..<n])"

section \<open>Loops\<close>

lemma forM_append:
  "forM (xs @ ys) body s = (case forM xs body s of None \<Rightarrow> None | Some s' \<Rightarrow> forM ys body s')"
  by (induction xs arbitrary: s) (auto split: option.splits)

lemma forM_cong:
  "(\<And>x s. x \<in> set xs \<Longrightarrow> f x s = g x s) \<Longrightarrow> forM xs f s = forM xs g s"
  by (induction xs arbitrary: s) (auto split: option.splits)


lemma forM_sum:
  "forM [0..<n] (\<lambda>i s. Some (s + f i)) s0 = Some (s0 + (\<Sum>i<n. f i) :: float64)"
  by (induction n) (simp_all add: forM_append add.assoc)

lemma forM_forM_sum:
  "forM [0..<n] (\<lambda>i s. forM [0..<m] (\<lambda>j s. Some (s + f i j)) s) s0 =
   Some (s0 + (\<Sum>i<n. \<Sum>j<m. f i j) :: float64)"
  by (induction n) (simp_all add: forM_append forM_sum add.assoc)

lemma forM_snoc_map:
  "forM xs (\<lambda>i acc. Some (acc @ [f i])) acc0 = Some (acc0 @ map f xs)"
  by (induction xs arbitrary: acc0) simp_all

lemma map_upt_nth: "map (\<lambda>i. f (xs ! i)) [0..<length xs] = map f xs"
  by (rule nth_equalityI) simp_all

section \<open>Portfolio Scorer: properties\<close>

lemma stats_defined_rows:
  assumes "stats_defined n meanReturns covMatrix" and "i < n" and "j < n"
  shows "i < length covMatrix \<and> j < length (covMatrix ! i)"
proof -
  from assms have n: "n \<le> length covMatrix"
    and rows: "list_all (\<lambda>row. n \<le> length row) (take n covMatrix)"
    by (auto simp: stats_defined_def)
  from n assms(2) have "covMatrix ! i \<in> set (take n covMatrix)"
    by (metis in_set_conv_nth length_take min.absorb2 nth_take)
  with rows have "n \<le> length (covMatrix ! i)"
    by (simp add: list_all_iff)
  with n assms(2,3) show ?thesis by simp
qed

lemma PortfolioStats_defined:
  assumes "stats_defined (length weights) meanReturns covMatrix"
  shows "PortfolioStats weights meanReturns covMatrix riskFreeRate =
    (let n = length weights;
         ret = (\<Sum>i<n. weights ! i * meanReturns ! i);
         vol = Sqrt (\<Sum>i<n. \<Sum>j<n. weights ! i * weights ! j * covMatrix ! i ! j)
     in Some (ret, vol, if vol > 0 then (ret - riskFreeRate) / vol else 0))"
proof -
  let ?n = "length weights"
  have len: "?n \<le> length meanReturns"
    using assms by (simp add: stats_defined_def)
  have "forM [0..<?n] (\<lambda>i ret. do { m \<leftarrow> idx meanReturns i; Some (ret + weights ! i * m) }) 0
      = forM [0..<?n] (\<lambda>i ret. Some (ret + weights ! i * meanReturns ! i)) 0"
    using len by (intro forM_cong) (simp add: idx_def)
  then have r: "forM [0..<?n] (\<lambda>i ret. do { m \<leftarrow> idx meanReturns i; Some (ret + weights ! i * m) }) 0
     = Some (\<Sum>i<?n. weights ! i * meanReturns ! i)"
    by (simp add: forM_sum)
  have "forM [0..<?n] (\<lambda>i variance.
              forM [0..<?n] (\<lambda>j variance. do {
                row \<leftarrow> idx covMatrix i;
                c \<leftarrow> idx row j;
                Some (variance + weights ! i * weights ! j * c) }) variance) 0
      = forM [0..<?n] (\<lambda>i variance.
              forM [0..<?n] (\<lambda>j variance.
                Some (variance + weights ! i * weights ! j * covMatrix ! i ! j)) variance) 0"
    using stats_defined_rows[OF assms] by (intro forM_cong) (simp add: idx_def)
  then have v: "forM [0..<?n] (\<lambda>i variance.
              forM [0..<?n] (\<lambda>j variance. do {
                row \<leftarrow> idx covMatrix i;
                c \<leftarrow> idx row j;
                Some (variance + weights ! i * weights ! j * c) }) variance) 0
     = Some (\<Sum>i<?n. \<Sum>j<?n. weights ! i * weights ! j * covMatrix ! i ! j)"
    by (simp add: forM_forM_sum)
  show ?thesis
    unfolding PortfolioStats_def Let_def r v by simp
qed




lemma sharpe_approx_aux:
  fixes s :: real
  assumes "0.19362 < s" and "s < 0.19367"
  shows "\<bar>0.1 / s - 0.5164\<bar> < 0.0001"
proof -
  have pos: "0 < s" using assms by simp
  define q where "q = 0.1 / s"
  have "q < 0.5165" unfolding q_def using assms pos by (simp add: pos_divide_less_eq)
  moreover have "0.5163 < q" unfolding q_def using assms pos by (simp add: pos_less_divide_eq)
  ultimately have "\<bar>q - 0.5164\<bar> < 0.0001" by linarith
  then show ?thesis unfolding q_def .
qed

lemma sqrt_00375_bounds: "0.19362 < sqrt 0.0375 \<and> sqrt 0.0375 < (0.19367::real)"
proof
  show "0.19362 < sqrt 0.0375" by (rule real_less_rsqrt) (simp add: power2_eq_square)
  show "sqrt 0.0375 < (0.19367::real)" by (rule real_less_lsqrt) (simp_all add: power2_eq_square)
qed

lemma PortfolioStats_scenario:
  "PortfolioStats [Fin 0.5, Fin 0.5] [Fin 0.10, Fin 0.20]
     [[Fin 0.04, Fin 0.01], [Fin 0.01, Fin 0.09]] (Fin 0.05)
   = Some (Fin 0.15, Fin (sqrt 0.0375), Fin (0.1 / sqrt 0.0375))"
  by (subst PortfolioStats_defined)
     (simp_all add: stats_defined_def nth_Cons' lessThan_Suc numeral_2_eq_2
        zero_float64_def minus_float64_def)

text \<open>
  C1. Whenever the index reads are in range (otherwise the function panics),
  \<^verbatim>\<open>PortfolioStats\<close> returns \<open>ret = \<Sum>i. weights[i] * meanReturns[i]\<close>, \<open>vol\<close> the
  square root of the full quadratic form \<open>\<Sum>i. \<Sum>j. weights[i] * weights[j] *
  covMatrix[i][j]\<close>, and \<open>sharpe = (ret - riskFreeRate) / vol\<close> when \<open>vol > 0\<close> and 0
  otherwise, in particular when \<open>vol = 0\<close>. On the scenario of the specification it
  returns 0.15, \<open>sqrt 0.0375\<close> and a Sharpe ratio within \<open>0.0001\<close> of 0.5164.
\<close>

theorem PortfolioStats_formula:
  "(stats_defined (length weights) meanReturns covMatrix \<longrightarrow>
      (\<exists>ret vol sharpe.
         PortfolioStats weights meanReturns covMatrix riskFreeRate = Some (ret, vol, sharpe) \<and>
         ret = (\<Sum>i<length weights. weights ! i * meanReturns ! i) \<and>
         vol = Sqrt (\<Sum>i<length weights. \<Sum>j<length weights.
                       weights ! i * weights ! j * covMatrix ! i ! j) \<and>
         (vol > 0 \<longrightarrow> sharpe = (ret - riskFreeRate) / vol) \<and>
         (vol = 0 \<longrightarrow> sharpe = 0) \<and>
         (\<not> vol > 0 \<longrightarrow> sharpe = 0))) \<and>
   (\<exists>s. PortfolioStats [Fin 0.5, Fin 0.5] [Fin 0.10, Fin 0.20]
           [[Fin 0.04, Fin 0.01], [Fin 0.01, Fin 0.09]] (Fin 0.05)
         = Some (Fin 0.15, Fin (sqrt 0.0375), Fin s) \<and> \<bar>s - 0.5164\<bar> < 0.0001)"
proof (intro conjI impI)
  assume d: "stats_defined (length weights) meanReturns covMatrix"
  have z: "\<not> (0::float64) < 0" by (simp add: zero_float64_def)
  show "\<exists>ret vol sharpe.
         PortfolioStats weights meanReturns covMatrix riskFreeRate = Some (ret, vol, sharpe) \<and>
         ret = (\<Sum>i<length weights. weights ! i * meanReturns ! i) \<and>
         vol = Sqrt (\<Sum>i<length weights. \<Sum>j<length weights.
                       weights ! i * weights ! j * covMatrix ! i ! j) \<and>
         (vol > 0 \<longrightarrow> sharpe = (ret - riskFreeRate) / vol) \<and>
         (vol = 0 \<longrightarrow> sharpe = 0) \<and>
         (\<not> vol > 0 \<longrightarrow> sharpe = 0)"
    using z by (simp add: PortfolioStats_defined[OF d] Let_def)
next
  show "\<exists>s. PortfolioStats [Fin 0.5, Fin 0.5] [Fin 0.10, Fin 0.20]
           [[Fin 0.04, Fin 0.01], [Fin 0.01, Fin 0.09]] (Fin 0.05)
         = Some (Fin 0.15, Fin (sqrt 0.0375), Fin s) \<and> \<bar>s - 0.5164\<bar> < 0.0001"
    using PortfolioStats_scenario sharpe_approx_aux sqrt_00375_bounds by blast
qed

text \<open>
  The theorem at a portfolio without risk: all weight on an asset of variance 0 gives
  volatility 0 and the Sharpe ratio 0.
\<close>

theorem PortfolioStats_formula_witness:
  "stats_defined (length [Fin 1, Fin 0]) [Fin 0.10, Fin 0.20] [[Fin 0, Fin 0], [Fin 0, Fin 0.09]] \<and>
   PortfolioStats [Fin 1, Fin 0] [Fin 0.10, Fin 0.20] [[Fin 0, Fin 0], [Fin 0, Fin 0.09]] (Fin 0.05)
     = Some (Fin 0.10, Fin 0, Fin 0)"
proof -
  have d: "stats_defined (length [Fin 1, Fin 0]) [Fin 0.10, Fin 0.20]
             [[Fin 0, Fin 0], [Fin 0, Fin 0.09]]"
    by (simp add: stats_defined_def)
  from PortfolioStats_formula[of "[Fin 1, Fin 0]" "[Fin 0.10, Fin 0.20]"
      "[[Fin 0, Fin 0], [Fin 0, Fin 0.09]]" "Fin 0.05"] d
  obtain ret vol sharpe where
    "PortfolioStats [Fin 1, Fin 0] [Fin 0.10, Fin 0.20] [[Fin 0, Fin 0], [Fin 0, Fin 0.09]] (Fin 0.05)
       = Some (ret, vol, sharpe)"
    "ret = (\<Sum>i<length [Fin 1, Fin 0]. [Fin 1, Fin 0] ! i * [Fin 0.10, Fin 0.20] ! i)"
    "vol = Sqrt (\<Sum>i<length [Fin 1, Fin 0]. \<Sum>j<length [Fin 1, Fin 0].
              [Fin 1, Fin 0] ! i * [Fin 1, Fin 0] ! j * [[Fin 0, Fin 0], [Fin 0, Fin 0.09]] ! i ! j)"
    "vol = 0 \<longrightarrow> sharpe = 0"
    by blast
  then show ?thesis
    using d by (simp add: nth_Cons' lessThan_Suc numeral_2_eq_2 zero_float64_def)
qed

section \<open>ReturnSeries Builder: properties\<close>

lemma reconstruct_nth:
  "i \<le> length rs \<Longrightarrow> reconstruct p0 rs ! i = p0 * exp (\<Sum>k<i. rs ! k)"
  unfolding reconstruct_def by (subst nth_map) (simp_all del: upt_Suc)

lemma length_reconstruct: "length (reconstruct p0 rs) = Suc (length rs)"
  by (simp add: reconstruct_def)

lemma fold_update_upt:
  "k \<le> length xs \<Longrightarrow> fold (\<lambda>i ys. ys[i := h i (ys ! i)]) [0..<k] xs = map (\<lambda>i. h i (xs ! i)) [0..<k] @ drop k xs"
proof (induction k)
  case 0
  then show ?case by simp
next
  case (Suc k)
  then have k: "k < length xs" by simp
  have "(map (\<lambda>i. h i (xs ! i)) [0..<k] @ drop k xs)[k := h k (xs ! k)]
      = map (\<lambda>i. h i (xs ! i)) [0..<k] @ (drop k xs)[0 := h k (xs ! k)]"
    by (simp add: list_update_append)
  also have "(drop k xs)[0 := h k (xs ! k)] = h k (xs ! k) # drop (Suc k) xs"
    using k by (metis Cons_nth_drop_Suc list_update_code(2))
  finally show ?case using Suc k by (simp add: nth_append)
qed

lemma fold_update_all:
  "fold (\<lambda>i ys. ys[i := h i (ys ! i)]) [0..<length xs] xs = map (\<lambda>i. h i (xs ! i)) [0..<length xs]"
  by (simp add: fold_update_upt)

lemma Returns_eq:
  assumes "prices \<noteq> []"
  shows "Returns prices = Some (map (\<lambda>i. Log (prices ! Suc i / prices ! i)) [0..<length prices - 1])"
proof -
  obtain m where m: "length prices = Suc m" using assms by (cases prices) auto
  have "[1..<Suc m] = map Suc [0..<m]" by (simp add: map_Suc_upt)
  then have "fold (\<lambda>i ret. ret[i - 1 := Log (prices ! i / prices ! (i - 1))]) [1..<Suc m] (replicate m 0)
     = fold (\<lambda>i ret. ret[i := Log (prices ! Suc i / prices ! i)]) [0..<m] (replicate m 0)"
    by (simp add: fold_map comp_def)
  also have "\<dots> = map (\<lambda>i. Log (prices ! Suc i / prices ! i)) [0..<m]"
    using fold_update_all[of "\<lambda>i _. Log (prices ! Suc i / prices ! i)" "replicate m 0"] by simp
  finally show ?thesis using m by (simp add: Returns_def)
qed

lemma Returns_total: "prices \<noteq> [] \<Longrightarrow> \<exists>rs. Returns prices = Some rs \<and> length rs = length prices - 1"
  by (simp add: Returns_eq)

lemma exp_sum_ln_ratio:
  fixes ps :: "real list"
  assumes "list_all (\<lambda>p. 0 < p) ps" and "i < length ps"
  shows "ps ! 0 * exp (\<Sum>k<i. ln (ps ! Suc k / ps ! k)) = ps ! i"
  using assms(2)
proof (induction i)
  case 0
  then show ?case by simp
next
  case (Suc i)
  from assms(1) Suc.prems have pos: "0 < ps ! i" "0 < ps ! Suc i"
    by (simp_all add: list_all_length)
  from Suc have IH: "ps ! 0 * exp (\<Sum>k<i. ln (ps ! Suc k / ps ! k)) = ps ! i" by simp
  have "ps ! 0 * exp (\<Sum>k<Suc i. ln (ps ! Suc k / ps ! k))
      = (ps ! 0 * exp (\<Sum>k<i. ln (ps ! Suc k / ps ! k))) * exp (ln (ps ! Suc i / ps ! i))"
    by (simp add: exp_add)
  also have "\<dots> = ps ! i * (ps ! Suc i / ps ! i)"
    using pos by (simp add: IH)
  also have "\<dots> = ps ! Suc i" using pos by simp
  finally show ?case .
qed

text \<open>
  C7. For every price sequence of length at least 2 with strictly positive (finite)
  prices, \<^verbatim>\<open>Returns\<close> yields \<open>n - 1\<close> entries \<open>r[i] = ln (price[i+1] / price[i])\<close>,
  and the prices \<open>price[0] * exp (r[0] + \<dots> + r[i-1])\<close> reconstructed from them are
  the original sequence (exactly, in real arithmetic).
\<close>

theorem Returns_roundtrip:
  assumes "2 \<le> length ps" and "list_all (\<lambda>p. 0 < p) ps"
  shows "\<exists>rs. Returns (map Fin ps) = Some (map Fin rs) \<and>
              length rs = length ps - 1 \<and>
              (\<forall>i<length rs. rs ! i = ln (ps ! (i + 1) / ps ! i)) \<and>
              reconstruct (ps ! 0) rs = ps"
proof -
  let ?rs = "map (\<lambda>i. ln (ps ! Suc i / ps ! i)) [0..<length ps - 1]"
  have ne: "map Fin ps \<noteq> []" using assms(1) by auto
  have pos: "\<And>i. i < length ps \<Longrightarrow> 0 < ps ! i"
    using assms(2) by (simp add: list_all_length)
  have "Log (map Fin ps ! Suc i / map Fin ps ! i) = Fin (ln (ps ! Suc i / ps ! i))"
    if "i < length ps - 1" for i
  proof -
    from that have p: "0 < ps ! i" "0 < ps ! Suc i" by (simp_all add: pos)
    then have "\<not> ps ! Suc i / ps ! i < 0" "ps ! Suc i / ps ! i \<noteq> 0"
      by (simp_all add: not_less)
    moreover have "i < length ps" "Suc i < length ps" using that by simp_all
    ultimately show ?thesis by simp
  qed
  then have "map (\<lambda>i. Log (map Fin ps ! Suc i / map Fin ps ! i)) [0..<length ps - 1] = map Fin ?rs"
    by simp
  then have 1: "Returns (map Fin ps) = Some (map Fin ?rs)"
    using Returns_eq[OF ne] by simp
  have 2: "reconstruct (ps ! 0) ?rs = ps"
  proof (rule nth_equalityI)
    show "length (reconstruct (ps ! 0) ?rs) = length ps"
      using assms(1) by (simp add: length_reconstruct)
  next
    fix i assume "i < length (reconstruct (ps ! 0) ?rs)"
    then have i: "i < length ps" using assms(1) by (simp add: length_reconstruct)
    have "(\<Sum>k<i. ?rs ! k) = (\<Sum>k<i. ln (ps ! Suc k / ps ! k))"
      using i by (intro sum.cong) auto
    moreover have "reconstruct (ps ! 0) ?rs ! i = ps ! 0 * exp (\<Sum>k<i. ?rs ! k)"
      using i by (intro reconstruct_nth) simp
    ultimately show "reconstruct (ps ! 0) ?rs ! i = ps ! i"
      using exp_sum_ln_ratio[OF assms(2) i] by simp
  qed
  show ?thesis
    using 1 2 by (intro exI[of _ ?rs]) simp
qed

text \<open>The theorem on the prices 100, 110, 121 of the repository's test.\<close>

theorem Returns_roundtrip_witness:
  "2 \<le> length [100, 110, 121 :: real] \<and> list_all (\<lambda>p. 0 < p) [100, 110, 121 :: real] \<and>
   (\<exists>rs. Returns (map Fin [100, 110, 121]) = Some (map Fin rs) \<and> length rs = 2 \<and>
         reconstruct 100 rs = [100, 110, 121])"
  using Returns_roundtrip[of "[100, 110, 121]"] by auto







section \<open>Comparisons of float64\<close>

lemma float64_le_less_trans: "a \<le> b \<Longrightarrow> b < c \<Longrightarrow> a < (c::float64)"
  by (cases a; cases b; cases c) (auto simp: less_eq_float64_def)


lemma float64_less_imp_le: "a < b \<Longrightarrow> a \<le> (b::float64)"
  by (simp add: less_eq_float64_def)


lemma float64_le_refl: "a \<noteq> NaN \<Longrightarrow> a \<le> (a::float64)"
  by (simp add: less_eq_float64_def)


lemma float64_less_not_NaN: "a < (b::float64) \<Longrightarrow> a \<noteq> NaN \<and> b \<noteq> NaN"
  by (cases a; cases b) auto








section \<open>The sample filter: properties\<close>

lemma stride_ratio:
  fixes L :: nat and K :: int
  assumes "2 \<le> K" and "K < int L"
  shows "1 < (real L - 1) / (real_of_int K - 1)"
proof -
  have "real_of_int K - 1 < real L - 1" using assms by linarith
  moreover have "0 < real_of_int K - 1" using assms by simp
  ultimately show ?thesis by (simp add: pos_less_divide_eq)
qed

lemma stride_index_alt:
  "s = (real L - 1) / (real_of_int K - 1) \<Longrightarrow> stride_index L K i = nat \<lfloor>real i * s + 1 / 2\<rfloor>"
  by (simp add: stride_index_def)

lemma stride_index_bound:
  assumes "2 \<le> K" and "K < int L" and "int i < K"
  shows "stride_index L K i < L"
proof -
  define s where "s = (real L - 1) / (real_of_int K - 1)"
  have K1: "0 < real_of_int K - 1" using assms by simp
  have s1: "1 < s" unfolding s_def by (rule stride_ratio[OF assms(1,2)])
  have "real i \<le> real_of_int K - 1" using assms(3) by linarith
  then have "real i * s \<le> (real_of_int K - 1) * s"
    using s1 by (intro mult_right_mono) simp_all
  also have "\<dots> = real L - 1" unfolding s_def using K1 by simp
  finally have "real i * s + 1 / 2 < real L" by simp
  then have "\<lfloor>real i * s + 1 / 2\<rfloor> < int L"
    by (simp add: floor_less_iff)
  moreover have "0 < L" using assms by linarith
  ultimately have "nat \<lfloor>real i * s + 1 / 2\<rfloor> < L" by simp
  then show ?thesis by (simp add: stride_index_alt[OF s_def])
qed



lemma stride_index_Suc:
  assumes "2 \<le> K" and "K < int L"
  shows "stride_index L K i < stride_index L K (Suc i)"
proof -
  define s where "s = (real L - 1) / (real_of_int K - 1)"
  have s: "1 < s" unfolding s_def by (rule stride_ratio[OF assms])
  define a where "a = real i * s + 1 / 2"
  define b where "b = real (Suc i) * s + 1 / 2"
  have "b = a + s" unfolding a_def b_def by (simp add: algebra_simps)
  then have "a + 1 \<le> b" using s by simp
  moreover have "of_int \<lfloor>a\<rfloor> \<le> a" by (rule of_int_floor_le)
  ultimately have "of_int (\<lfloor>a\<rfloor> + 1) \<le> b" by linarith
  then have le: "\<lfloor>a\<rfloor> + 1 \<le> \<lfloor>b\<rfloor>" by (simp only: le_floor_iff)
  have "0 \<le> real i * s" using s by simp
  then have "0 \<le> a" unfolding a_def by simp
  then have "0 \<le> \<lfloor>a\<rfloor>" by simp
  with le have "0 < \<lfloor>b\<rfloor>" "\<lfloor>a\<rfloor> < \<lfloor>b\<rfloor>" by arith+
  then have "nat \<lfloor>a\<rfloor> < nat \<lfloor>b\<rfloor>" by (simp only: nat_mono_iff)
  then show ?thesis
    unfolding a_def b_def by (simp only: stride_index_alt[OF s_def])
qed

lemma stride_index_mono:
  assumes "2 \<le> K" and "K < int L" and "i < j"
  shows "stride_index L K i < stride_index L K j"
  using assms(3)
proof (induction j)
  case 0
  then show ?case by simp
next
  case (Suc j)
  show ?case
  proof (cases "i = j")
    case True
    then show ?thesis using stride_index_Suc[OF assms(1,2), of j] by simp
  next
    case False
    with Suc.prems have "i < j" by simp
    then have "stride_index L K i < stride_index L K j" by (rule Suc.IH)
    also have "\<dots> < stride_index L K (Suc j)" by (rule stride_index_Suc[OF assms(1,2)])
    finally show ?thesis .
  qed
qed

lemma resample_body_eq:
  assumes "2 \<le> K" and "K < int (length efficient)" and "int i < K"
  shows "resample_body efficient
           (float64_of_int (int (length efficient) - 1) / float64_of_int (K - 1)) i resampled
         = Some (resampled @ [efficient ! stride_index (length efficient) K i])"
proof -
  define L where "L = length efficient"
  define s where "s = (real L - 1) / (real_of_int K - 1)"
  define z where "z = \<lfloor>real i * s + 1 / 2\<rfloor>"
  have K1: "real_of_int K - 1 \<noteq> 0" using assms by simp
  have step: "float64_of_int (int (length efficient) - 1) / float64_of_int (K - 1) = Fin s"
    using K1 by (simp add: float64_of_int_def s_def L_def)
  have s1: "1 < s" unfolding s_def using assms(1,2) by (intro stride_ratio) (simp_all add: L_def)
  have a0: "0 \<le> real i * s" using s1 by simp
  then have z0: "0 \<le> z" unfolding z_def by simp
  have "Round (float64_of_int (int i) * Fin s) = Fin (of_int z)"
    using a0 by (simp add: float64_of_int_def z_def)
  then have idx0: "toInt (Round (float64_of_int (int i) * Fin s)) = z"
    using z0 by simp
  have si: "stride_index (length efficient) K i = nat z"
    unfolding z_def L_def[symmetric] by (rule stride_index_alt[OF s_def])
  have "nat z < L"
    using stride_index_bound[OF assms] si by (simp add: L_def)
  then have lt: "z < int (length efficient)" using z0 by (simp add: L_def)
  show ?thesis
    unfolding resample_body_def step idx0 Let_def si
    using lt z0 by simp
qed

lemma resample_forM:
  assumes "2 \<le> K" and "K < int (length efficient)"
  shows "forM [0..<nat K]
           (resample_body efficient
              (float64_of_int (int (length efficient) - 1) / float64_of_int (K - 1))) []
         = Some (map (\<lambda>i. efficient ! stride_index (length efficient) K i) [0..<nat K])"
proof -
  have "forM [0..<nat K]
           (resample_body efficient
              (float64_of_int (int (length efficient) - 1) / float64_of_int (K - 1))) []
      = forM [0..<nat K]
           (\<lambda>i acc. Some (acc @ [efficient ! stride_index (length efficient) K i])) []"
  proof (rule forM_cong)
    fix i acc assume "i \<in> set [0..<nat K]"
    then have "int i < K" by simp
    then show "resample_body efficient
           (float64_of_int (int (length efficient) - 1) / float64_of_int (K - 1)) i acc
         = Some (acc @ [efficient ! stride_index (length efficient) K i])"
      by (rule resample_body_eq[OF assms])
  qed
  then show ?thesis by (simp add: forM_snoc_map)
qed

lemma computeFrontierLineFromSimulations_eq:
  assumes "sims \<noteq> []" and "2 \<le> K"
  shows "computeFrontierLineFromSimulations sortSlice sims K =
           (if int (length (front sortSlice sims)) \<le> K then Some (Slice (front sortSlice sims))
            else Some (Slice (map (\<lambda>i. front sortSlice sims ! stride_index (length (front sortSlice sims)) K i)
                                [0..<nat K])))"
proof (cases "int (length (front sortSlice sims)) \<le> K")
  case True
  then show ?thesis
    using assms by (simp add: computeFrontierLineFromSimulations_def front_def split_def Let_def)
next
  case False
  then have "K < int (length (front sortSlice sims))" by simp
  from resample_forM[OF assms(2) this] False assms show ?thesis
    by (simp add: computeFrontierLineFromSimulations_def front_def split_def Let_def)
qed






text \<open>
  The sample filter keeps a point only when its return exceeds the best return so far,
  so the returns of its front increase strictly whatever the order of the samples. When
  \<^verbatim>\<open>sort.Slice\<close> has put the samples in ascending order of risk, the risks of the front
  ascend as well, and the resampling, which reads the front at increasing indices,
  keeps both orders.
\<close>

lemma scan_ascending:
  assumes "sorted_wrt (\<lambda>a b. Risk a \<le> Risk b) xs"
    and "sorted_wrt (\<lambda>a b. FrontierPoint.Risk a \<le> FrontierPoint.Risk b \<and>
                            FrontierPoint.Return a < FrontierPoint.Return b) efficient"
    and "\<forall>q\<in>set efficient. FrontierPoint.Return q \<le> bestReturn \<and>
                             (\<forall>p\<in>set xs. FrontierPoint.Risk q \<le> Risk p)"
  shows "sorted_wrt (\<lambda>a b. FrontierPoint.Risk a \<le> FrontierPoint.Risk b \<and>
                           FrontierPoint.Return a < FrontierPoint.Return b)
           (fst (fold scan_body xs (efficient, bestReturn)))"
  using assms
proof (induction xs arbitrary: efficient bestReturn)
  case Nil
  then show ?case by simp
next
  case (Cons x xs)
  from Cons.prems(1) have sx: "sorted_wrt (\<lambda>a b. Risk a \<le> Risk b) xs"
    and hx: "\<forall>p\<in>set xs. Risk x \<le> Risk p" by simp_all
  show ?case
  proof (cases "Return x > bestReturn")
    case True
    let ?pt = "\<lparr>FrontierPoint.Return = Return x, FrontierPoint.Risk = Risk x,
                FrontierPoint.Weights = Weights x\<rparr>"
    from float64_less_not_NaN[OF True] have "Return x \<noteq> NaN" by simp
    then have nn: "Return x \<le> Return x" by (rule float64_le_refl)
    have old: "\<forall>q\<in>set efficient. FrontierPoint.Risk q \<le> Risk x \<and> FrontierPoint.Return q < Return x"
      using Cons.prems(3) True by (auto intro: float64_le_less_trans)
    have s': "sorted_wrt (\<lambda>a b. FrontierPoint.Risk a \<le> FrontierPoint.Risk b \<and>
                            FrontierPoint.Return a < FrontierPoint.Return b) (efficient @ [?pt])"
      using Cons.prems(2) old by (simp add: sorted_wrt_append)
    have b': "\<forall>q\<in>set (efficient @ [?pt]). FrontierPoint.Return q \<le> Return x \<and>
                             (\<forall>p\<in>set xs. FrontierPoint.Risk q \<le> Risk p)"
      using Cons.prems(3) old nn hx by (auto intro: float64_less_imp_le)
    from Cons.IH[OF sx s' b'] True show ?thesis
      by (simp add: scan_body_def)
  next
    case False
    have b': "\<forall>q\<in>set efficient. FrontierPoint.Return q \<le> bestReturn \<and>
                             (\<forall>p\<in>set xs. FrontierPoint.Risk q \<le> Risk p)"
      using Cons.prems(3) by simp
    from Cons.IH[OF sx Cons.prems(2) b'] False show ?thesis
      by (simp add: scan_body_def)
  qed
qed

lemma front_ascending:
  assumes "sorted_wrt (\<lambda>a b. Risk a \<le> Risk b) (sortSlice less_by_risk sims)"
  shows "sorted_wrt (\<lambda>a b. FrontierPoint.Risk a \<le> FrontierPoint.Risk b \<and>
                           FrontierPoint.Return a < FrontierPoint.Return b)
           (front sortSlice sims)"
  unfolding front_def by (rule scan_ascending[OF assms]) simp_all

lemma sample_filter_ascending:
  assumes "2 \<le> K"
    and "sorted_wrt (\<lambda>a b. Risk a \<le> Risk b) (sortSlice less_by_risk sims)"
    and "computeFrontierLineFromSimulations sortSlice sims K = Some fr"
  shows "sorted_wrt (\<lambda>a b. FrontierPoint.Risk a \<le> FrontierPoint.Risk b \<and>
                           FrontierPoint.Return a < FrontierPoint.Return b) (elems fr)"
proof (cases "sims = []")
  case True
  with assms(3) show ?thesis by (auto simp: computeFrontierLineFromSimulations_def)
next
  case False
  let ?f = "front sortSlice sims"
  let ?L = "length ?f"
  let ?R = "\<lambda>a b. FrontierPoint.Risk a \<le> FrontierPoint.Risk b \<and>
                   FrontierPoint.Return a < FrontierPoint.Return b"
  have f: "sorted_wrt ?R ?f" using assms(2) by (rule front_ascending)
  show ?thesis
  proof (cases "int ?L \<le> K")
    case True
    with assms(3) f show ?thesis
      by (auto simp: computeFrontierLineFromSimulations_eq[OF False assms(1)])
  next
    case big: False
    then have lt: "K < int ?L" by simp
    let ?out = "map (\<lambda>i. ?f ! stride_index ?L K i) [0..<nat K]"
    have fr: "elems fr = ?out"
      using assms(3) big by (auto simp: computeFrontierLineFromSimulations_eq[OF False assms(1)])
    have "?R (?out ! i) (?out ! j)" if "i < j" "j < length ?out" for i j
    proof -
      from that have ij: "i < nat K" "j < nat K" by simp_all
      have a: "stride_index ?L K i < stride_index ?L K j"
        by (rule stride_index_mono[OF assms(1) lt that(1)])
      have b: "stride_index ?L K j < ?L"
        using ij(2) by (intro stride_index_bound[OF assms(1) lt]) simp
      from sorted_wrt_nth_less[OF f a b]
      have "?R (?f ! stride_index ?L K i) (?f ! stride_index ?L K j)" .
      then show ?thesis using ij by simp
    qed
    then have "sorted_wrt ?R ?out"
      by (simp only: sorted_wrt_iff_nth_less) blast
    then show ?thesis by (simp only: fr)
  qed
qed

section \<open>Monte Carlo Sampler: properties\<close>














text \<open>
  C10, as the code has it. With a simulation count of 0 \<^verbatim>\<open>RunMonteCarlo\<close> reports no
  error: it returns no sampled portfolio, a max-Sharpe portfolio whose Sharpe ratio is
  \<open>-Inf\<close> and a min-variance portfolio whose risk is \<open>+Inf\<close>, both with \<^verbatim>\<open>nil\<close>
  weights. With a negative count it returns nothing: the allocation of the sample
  slice panics.
\<close>

theorem RunMonteCarlo_zero_sims:
  "RunMonteCarlo NewSource ExpFloat64 sortSlice meanReturns covMatrix 0 riskFreeRate =
     Some \<lparr>MonteCarloPoints = [], FrontierPoints = nil,
           MaxSharpe = \<lparr>Weights = nil, Return = 0, Risk = 0, Sharpe = NInf\<rparr>,
           MinVariance = \<lparr>Weights = nil, Return = 0, Risk = PInf, Sharpe = 0\<rparr>\<rparr> \<and>
   (numSims < 0 \<longrightarrow>
      RunMonteCarlo NewSource ExpFloat64 sortSlice meanReturns covMatrix numSims riskFreeRate = None)"
  by (simp add: RunMonteCarlo_def computeFrontierLineFromSimulations_def)

text \<open>The theorem at the count -5.\<close>

theorem RunMonteCarlo_zero_sims_witness:
  "(- 5 :: int) < 0 \<and>
   RunMonteCarlo (\<lambda>seed. nat seed) (\<lambda>g. (Fin 1, Suc g)) (\<lambda>less xs. xs)
     [Fin 0.10, Fin 0.20] [[Fin 0.04, Fin 0], [Fin 0, Fin 0.09]] (- 5) (Fin 0.05) = None"
  using RunMonteCarlo_zero_sims[of "\<lambda>seed. nat seed" "\<lambda>g. (Fin 1, Suc g)" "\<lambda>less xs. xs"
      "[Fin 0.10, Fin 0.20]" "[[Fin 0.04, Fin 0], [Fin 0, Fin 0.09]]" "Fin 0.05" "- 5"]
  by simp

text \<open>
  C10 as stated fails for a negative count: at -1 the function panics instead of
  returning the empty result with its sentinels.
\<close>

theorem RunMonteCarlo_negative_sims_counterexample:
  "RunMonteCarlo (\<lambda>seed. nat seed) (\<lambda>g. (Fin 1, Suc g)) (\<lambda>less xs. xs)
     [Fin 0.10, Fin 0.20] [[Fin 0.04, Fin 0], [Fin 0, Fin 0.09]] (- 1) (Fin 0.05) = None"
  by (simp add: RunMonteCarlo_def)



section \<open>The gradient sweep: properties\<close>

lemma gradient_2x2:
  "gradient [[Fin c00, Fin c01], [Fin c10, Fin c11]] [Fin a, Fin b] 2
     = Some [Fin (2 * c00 * a + 2 * c01 * b), Fin (2 * c10 * a + 2 * c11 * b)]"
  by (simp add: gradient_def idx_def numeral_2_eq_2 zero_float64_def)

lemma mean_2: "mean [Fin m0, Fin m1] = Fin ((m0 + m1) / 2)"
  by (simp add: mean_def zero_float64_def)

lemma dot_2: "dot [Fin a, Fin b] [Fin m0, Fin m1] = Fin (a * m0 + b * m1)"
  by (simp add: dot_def zero_float64_def numeral_2_eq_2)

lemma sqDiffSum_test:
  "fold (\<lambda>r acc. acc + (r - Fin 0.15) * (r - Fin 0.15)) [Fin 0.1, Fin 0.2] 0 = Fin 0.005"
  by (simp add: zero_float64_def minus_float64_def power2_eq_square)

lemma sumW_2: "fold (\<lambda>wi sumW. sumW + wi) [Fin a, Fin b] 0 = Fin (a + b)"
  by (simp add: zero_float64_def)

lemma project_rev2_on_target:
  assumes "a + b = 1" and "0.1 * a + 0.2 * b = t"
  shows "project_rev2 [Fin 0.1, Fin 0.2] (Fin t) (Suc k) [Fin a, Fin b] = [Fin a, Fin b]"
proof -
  have w: "map (\<lambda>wi. wi + (Fin 1 - Fin (a + b)) / Fin (real (length [Fin 0.1, Fin 0.2])))
            [Fin a, Fin b] = [Fin a, Fin b]"
    using assms(1) by (simp add: minus_float64_def)
  have r: "Fin t - dot [Fin a, Fin b] [Fin 0.1, Fin 0.2] = Fin 0"
    using assms(2) by (simp add: dot_2 minus_float64_def algebra_simps)
  show ?thesis
    by (simp only: project_rev2.simps Let_def sumW_2 w r) simp
qed

lemma project_rev2_off_target:
  assumes "\<not> \<bar>t - (0.15 + 0.05 * (b - a))\<bar> < 1 / 10 ^ 10"
  shows "project_rev2 [Fin 0.1, Fin 0.2] (Fin t) (Suc k) [Fin a, Fin b]
       = project_rev2 [Fin 0.1, Fin 0.2] (Fin t) k [Fin (2 - 10 * t), Fin (10 * t - 1)]"
proof -
  define a1 where "a1 = a + (1 - (a + b)) / 2"
  define b1 where "b1 = b + (1 - (a + b)) / 2"
  define rd where "rd = t - (a1 * 0.1 + b1 * 0.2)"
  have w: "map (\<lambda>wi. wi + (Fin 1 - Fin (a + b)) / Fin (real (length [Fin 0.1, Fin 0.2])))
            [Fin a, Fin b] = [Fin a1, Fin b1]"
    by (simp add: minus_float64_def a1_def b1_def)
  have r: "Fin t - dot [Fin a1, Fin b1] [Fin 0.1, Fin 0.2] = Fin rd"
    by (simp add: dot_2 minus_float64_def rd_def)
  have rd': "rd = t - (0.15 + 0.05 * (b - a))"
    by (simp add: rd_def a1_def b1_def field_simps)
  have c: "\<not> Abs (Fin rd) < Fin (1 / 10 ^ 10)"
    using assms by (simp add: rd')
  have mm: "mean [Fin 0.1, Fin 0.2] = Fin 0.15"
    by (simp add: mean_2)
  have adj: "map (\<lambda>i. [Fin a1, Fin b1] ! i + Fin rd * ([Fin 0.1, Fin 0.2] ! i - Fin 0.15) / Fin 0.005)
               [0..<length [Fin a1, Fin b1]] = [Fin (2 - 10 * t), Fin (10 * t - 1)]"
    by (simp add: minus_float64_def numeral_2_eq_2 rd' a1_def b1_def field_simps)
  show ?thesis
    by (simp only: project_rev2.simps Let_def sumW_2 w r c mm sqDiffSum_test adj if_False)
       (simp add: zero_float64_def)
qed

lemma project_rev2_10:
  assumes "\<not> \<bar>t - (0.15 + 0.05 * (b - a))\<bar> < 1 / 10 ^ 10"
  shows "project_rev2 [Fin 0.1, Fin 0.2] (Fin t) 10 [Fin a, Fin b]
       = [Fin (2 - 10 * t), Fin (10 * t - 1)]"
proof -
  have "project_rev2 [Fin 0.1, Fin 0.2] (Fin t) (Suc (Suc 8)) [Fin a, Fin b]
      = project_rev2 [Fin 0.1, Fin 0.2] (Fin t) (Suc 8) [Fin (2 - 10 * t), Fin (10 * t - 1)]"
    by (rule project_rev2_off_target[OF assms])
  also have "\<dots> = [Fin (2 - 10 * t), Fin (10 * t - 1)]"
    by (rule project_rev2_on_target) (simp_all add: field_simps)
  finally show ?thesis by (simp add: eval_nat_numeral)
qed

lemma step_rev2_test:
  assumes "\<not> \<bar>t - (0.15 + 0.05 * ((b - l * (0.18 * b)) - (a - l * (0.08 * a))))\<bar> < 1 / 10 ^ 10"
  shows "step_rev2 [Fin 0.1, Fin 0.2] [[Fin 0.04, Fin 0], [Fin 0, Fin 0.09]] (Fin t)
           [Fin a, Fin b] (Fin l)
         = Some (clamp [Fin (2 - 10 * t), Fin (10 * t - 1)])"
proof -
  have g: "gradient [[Fin 0.04, Fin 0], [Fin 0, Fin 0.09]] [Fin a, Fin b] (length [Fin 0.1, Fin 0.2])
      = Some [Fin (0.08 * a), Fin (0.18 * b)]"
    using gradient_2x2[of "0.04" 0 0 "0.09" a b] by (simp add: numeral_2_eq_2)
  have m: "map (\<lambda>i. [Fin a, Fin b] ! i - Fin l * [Fin (0.08 * a), Fin (0.18 * b)] ! i)
             [0..<length [Fin a, Fin b]]
         = [Fin (a - l * (0.08 * a)), Fin (b - l * (0.18 * b))]"
    by (simp add: numeral_2_eq_2 minus_float64_def)
  show ?thesis
    unfolding step_rev2_def Let_def g
    by (simp only: Option.bind.simps m project_rev2_10[OF assms])
qed

lemma lr_schedule_bounds:
  assumes "iter < 5000"
  shows "(1 / 1600 :: real) \<le> (1 / 100) * (1 / 2) ^ (iter div 1000) \<and>
         (1 / 100) * (1 / 2) ^ (iter div 1000) \<le> (1 / 100 :: real)"
proof -
  define p where "p = (1 / 2 :: real) ^ (iter div 1000)"
  have k: "iter div 1000 \<le> 4" using assms by simp
  have "(1 / 2 :: real) ^ 4 \<le> p"
    unfolding p_def using k by (intro power_decreasing) simp_all
  then have a: "1 / 16 \<le> p" by (simp add: power_divide)
  have b: "p \<le> 1"
    unfolding p_def by (intro power_le_one) simp_all
  show ?thesis
    unfolding p_def[symmetric] using a b by simp
qed

lemma lr_schedule_step:
  "(if iter mod 1000 = 999 then Fin ((1 / 100) * (1 / 2) ^ (iter div 1000)) * Fin (1 / 2)
    else Fin ((1 / 100) * (1 / 2) ^ (iter div 1000)))
   = Fin ((1 / 100) * (1 / 2) ^ ((iter + 1) div 1000))"
proof (cases "iter mod 1000 = 999")
  case True
  then have "(iter + 1) div 1000 = Suc (iter div 1000)" by (simp add: div_Suc mod_Suc)
  with True show ?thesis by simp
next
  case False
  then have "(iter + 1) div 1000 = iter div 1000" by (simp add: div_Suc mod_Suc)
  with False show ?thesis by simp
qed

lemma loop_rev2_fixpoint:
  assumes fp: "\<And>l. 1 / 1600 \<le> l \<Longrightarrow> l \<le> 1 / 100 \<Longrightarrow> step_rev2 M C t w (Fin l) = Some w"
    and "iter \<le> 5000"
  shows "loop_rev2 M C t iter w (Fin ((1 / 100) * (1 / 2) ^ (iter div 1000))) = Some (Slice w)"
  using assms(2)
proof (induction "5000 - iter" arbitrary: iter)
  case 0
  then have "iter = 5000" by simp
  then show ?case by (subst loop_rev2.simps) simp
next
  case (Suc d)
  then have lt: "iter < 5000" and d: "d = 5000 - (iter + 1)" and le: "iter + 1 \<le> 5000"
    by simp_all
  from lr_schedule_bounds[OF lt] have
    st: "step_rev2 M C t w (Fin ((1 / 100) * (1 / 2) ^ (iter div 1000))) = Some w"
    by (intro fp) simp_all
  have "loop_rev2 M C t iter w (Fin ((1 / 100) * (1 / 2) ^ (iter div 1000)))
      = loop_rev2 M C t (iter + 1) w
          (if iter mod 1000 = 999 then Fin ((1 / 100) * (1 / 2) ^ (iter div 1000)) * Fin (1 / 2)
           else Fin ((1 / 100) * (1 / 2) ^ (iter div 1000)))"
    using lt st by (subst loop_rev2.simps) simp
  also have "\<dots> = loop_rev2 M C t (iter + 1) w (Fin ((1 / 100) * (1 / 2) ^ ((iter + 1) div 1000)))"
    by (simp only: lr_schedule_step)
  also have "\<dots> = Some (Slice w)"
    using Suc.hyps(1)[OF d le] .
  finally show ?case .
qed

lemma minVarForReturn_rev2_fixpoint:
  assumes first: "step_rev2 [Fin 0.1, Fin 0.2] C t [Fin (1 / 2), Fin (1 / 2)] (Fin (1 / 100)) = Some w"
    and fp: "\<And>l. 1 / 1600 \<le> l \<Longrightarrow> l \<le> 1 / 100 \<Longrightarrow> step_rev2 [Fin 0.1, Fin 0.2] C t w (Fin l) = Some w"
  shows "minVarForReturn_rev2 [Fin 0.1, Fin 0.2] C t = Some (Slice w)"
proof -
  have w0: "replicate (length [Fin 0.1, Fin 0.2]) (Fin 1 / Fin (real (length [Fin 0.1, Fin 0.2])))
      = [Fin (1 / 2), Fin (1 / 2)]"
    by (simp add: numeral_2_eq_2)
  have "loop_rev2 [Fin 0.1, Fin 0.2] C t 0 [Fin (1 / 2), Fin (1 / 2)] (Fin (1 / 100))
      = loop_rev2 [Fin 0.1, Fin 0.2] C t 1 w (Fin (1 / 100))"
    using first by (subst loop_rev2.simps) simp
  also have "\<dots> = Some (Slice w)"
    using loop_rev2_fixpoint[of "[Fin 0.1, Fin 0.2]" C t w 1, OF fp] by simp
  finally show ?thesis
    unfolding minVarForReturn_rev2_def Let_def w0 .
qed

text \<open>
  C4 at a failing input. On the two assets of the repository's test, the second
  revision of \<^verbatim>\<open>minVarForReturn\<close> returns for the target return 0.3, which no
  long-only portfolio of these assets reaches, the weights 0 and 2: their sum is 2,
  not 1. The projection gives \<open>(-1, 2)\<close>, and the clamp that follows it is the last
  step of the iteration.
\<close>

theorem minVarForReturn_rev2_infeasible_target:
  "minVarForReturn_rev2 [Fin 0.1, Fin 0.2] [[Fin 0.04, Fin 0], [Fin 0, Fin 0.09]] (Fin 0.3)
     = Some (Slice [Fin 0, Fin 2])"
proof (rule minVarForReturn_rev2_fixpoint)
  show "step_rev2 [Fin 0.1, Fin 0.2] [[Fin 0.04, Fin 0], [Fin 0, Fin 0.09]] (Fin 0.3)
          [Fin (1 / 2), Fin (1 / 2)] (Fin (1 / 100)) = Some [Fin 0, Fin 2]"
    by (subst step_rev2_test) (simp_all add: clamp_def zero_float64_def)
  show "step_rev2 [Fin 0.1, Fin 0.2] [[Fin 0.04, Fin 0], [Fin 0, Fin 0.09]] (Fin 0.3)
          [Fin 0, Fin 2] (Fin l) = Some [Fin 0, Fin 2]"
    if "1 / 1600 \<le> l" "l \<le> 1 / 100" for l :: real
  proof -
    have "\<not> \<bar>0.3 - (0.15 + 0.05 * ((2 - l * (0.18 * 2)) - (0 - l * (0.08 * 0))))\<bar> < 1 / 10 ^ 10"
      using that by (simp add: abs_if)
    from step_rev2_test[OF this] show ?thesis by (simp add: clamp_def zero_float64_def)
  qed
qed

subsection \<open>The sweep of target returns\<close>








































section \<open>Asset Statistics and Covariance Estimator: properties\<close>

lemma Returns_returns_of: "prices \<noteq> [] \<Longrightarrow> Returns prices = Some (returns_of prices)"
  by (simp add: Returns_eq returns_of_def)

lemma length_returns_of: "length (returns_of prices) = length prices - 1"
  by (simp add: returns_of_def)

lemma PrepareAssets_loopA:
  assumes "\<forall>pd\<in>set priceData. Closes pd \<noteq> []"
    and "k \<le> length priceData"
  shows "forM [0..<k] (\<lambda>i (allReturns, minLen). do {
           r \<leftarrow> Returns (Closes (priceData ! i));
           Some (allReturns[i := r],
                 if int (length r) < minLen then int (length r) else minLen) })
         (replicate (length priceData) [], MaxInt32)
       = Some (map (\<lambda>pd. returns_of (Closes pd)) (take k priceData) @ replicate (length priceData - k) [],
               minLen_of (take k priceData))"
  using assms(2)
proof (induction k)
  case 0
  then show ?case by (simp add: minLen_of_def)
next
  case (Suc k)
  then have k: "k < length priceData" by simp
  then have ne: "Closes (priceData ! k) \<noteq> []" using assms(1) by simp
  have r: "replicate (length priceData - k) ([]::float64 list) = [] # replicate (length priceData - Suc k) []"
    using k by (metis Suc_diff_Suc replicate_Suc)
  have t: "take (Suc k) priceData = take k priceData @ [priceData ! k]"
    using k by (simp add: take_Suc_conv_app_nth)
  show ?case
    using Suc k
    by (simp add: forM_append Returns_returns_of[OF ne] t r list_update_append
        minLen_of_def length_returns_of)
qed

lemma square_replicate: "square n (replicate n (replicate n x))"
  by (simp add: square_def)

lemma square_nth: "square n M \<Longrightarrow> a < n \<Longrightarrow> length (M ! a) = n"
  by (simp add: square_def)

lemma square_update: "square n M \<Longrightarrow> length row = n \<Longrightarrow> square n (M[i := row])"
  by (auto simp: square_def dest: set_update_subset_insert[THEN subsetD])

lemma set_sym_square:
  assumes "square n M" and "i < n" and "j < n"
  shows "square n (set_sym i j c M)"
proof -
  have 1: "square n (M[i := (M ! i)[j := c]])"
    using assms by (intro square_update) (simp_all add: square_nth)
  show ?thesis
    unfolding set_sym_def using 1 assms by (intro square_update) (simp_all add: square_nth)
qed

lemma set_sym_nth:
  assumes "square n M" and "i < n" and "j < n" and "a < n" and "b < n"
  shows "set_sym i j c M ! a ! b = (if (a = i \<and> b = j) \<or> (a = j \<and> b = i) then c else M ! a ! b)"
proof -
  have len: "length M = n" "\<And>r. r < n \<Longrightarrow> length (M ! r) = n"
    using assms(1) by (simp_all add: square_def)
  show ?thesis
    unfolding set_sym_def using assms(2-5) len
    by (auto simp: nth_list_update)
qed

lemma fold_set_sym:
  assumes "square n M" and "\<forall>(i, j)\<in>set ps. i \<le> j \<and> j < n"
  shows "square n (fold (\<lambda>(i, j). set_sym i j (c i j)) ps M) \<and>
         (\<forall>a<n. \<forall>b<n. fold (\<lambda>(i, j). set_sym i j (c i j)) ps M ! a ! b =
             (if (min a b, max a b) \<in> set ps then c (min a b) (max a b) else M ! a ! b))"
  using assms
proof (induction ps arbitrary: M rule: rev_induct)
  case Nil
  then show ?case by simp
next
  case (snoc p ps)
  obtain i j where p: "p = (i, j)" by (cases p)
  with snoc.prems have ij: "i \<le> j" "j < n" "i < n" by auto
  from snoc.prems have "\<forall>(i, j)\<in>set ps. i \<le> j \<and> j < n" by auto
  from snoc.IH[OF snoc.prems(1) this] have
    sq: "square n (fold (\<lambda>(i, j). set_sym i j (c i j)) ps M)"
    and nth: "\<And>a b. a < n \<Longrightarrow> b < n \<Longrightarrow> fold (\<lambda>(i, j). set_sym i j (c i j)) ps M ! a ! b =
             (if (min a b, max a b) \<in> set ps then c (min a b) (max a b) else M ! a ! b)"
    by blast+
  let ?M = "fold (\<lambda>(i, j). set_sym i j (c i j)) ps M"
  have f: "fold (\<lambda>(i, j). set_sym i j (c i j)) (ps @ [p]) M = set_sym i j (c i j) ?M"
    by (simp add: p)
  have "square n (set_sym i j (c i j) ?M)"
    by (rule set_sym_square[OF sq ij(3,2)])
  moreover have "set_sym i j (c i j) ?M ! a ! b =
      (if (min a b, max a b) \<in> set (ps @ [p]) then c (min a b) (max a b) else M ! a ! b)"
    if "a < n" "b < n" for a b
  proof -
    have m: "((a = i \<and> b = j) \<or> (a = j \<and> b = i)) \<longleftrightarrow> (min a b, max a b) = (i, j)"
      using ij(1) by (auto simp: min_def max_def)
    show ?thesis
      unfolding set_sym_nth[OF sq ij(3,2) that] nth[OF that]
      using m by (auto simp: p)
  qed
  ultimately show ?case unfolding f by blast
qed

lemma fold_concat_fold: "fold f (concat xss) s = fold (fold f) xss s"
  by (induction xss arbitrary: s) simp_all

lemma set_upper_pairs: "set (upper_pairs n) = {(i, j). i \<le> j \<and> j < n}"
proof -
  have "(a, b) \<in> set (upper_pairs n) \<longleftrightarrow> a \<le> b \<and> b < n" for a b
  proof
    assume "(a, b) \<in> set (upper_pairs n)"
    then show "a \<le> b \<and> b < n" by (auto simp: upper_pairs_def)
  next
    assume ab: "a \<le> b \<and> b < n"
    then have "a \<in> {0..<n}" "(a, b) \<in> Pair a ` {a..<n}" by auto
    then show "(a, b) \<in> set (upper_pairs n)" by (auto simp: upper_pairs_def)
  qed
  then show ?thesis by auto
qed

lemma fold_upper_pairs:
  "fold (\<lambda>i M. fold (\<lambda>j M. set_sym i j (c i j) M) [i..<n] M) [0..<n] M
   = fold (\<lambda>(i, j). set_sym i j (c i j)) (upper_pairs n) M"
  by (simp add: upper_pairs_def fold_concat_fold fold_map comp_def)

lemma symmetric_fill:
  assumes "a < n" and "b < n"
  shows "fold (\<lambda>i M. fold (\<lambda>j M. set_sym i j (c i j) M) [i..<n] M) [0..<n]
           (replicate n (replicate n x)) ! a ! b = c (min a b) (max a b)"
    and "square n (fold (\<lambda>i M. fold (\<lambda>j M. set_sym i j (c i j) M) [i..<n] M) [0..<n]
           (replicate n (replicate n x)))"
proof -
  have ps: "\<forall>(i, j)\<in>set (upper_pairs n). i \<le> j \<and> j < n"
    by (simp add: set_upper_pairs)
  from fold_set_sym[OF square_replicate ps, where x1 = x and c = c]
  show "fold (\<lambda>i M. fold (\<lambda>j M. set_sym i j (c i j) M) [i..<n] M) [0..<n]
           (replicate n (replicate n x)) ! a ! b = c (min a b) (max a b)"
    and "square n (fold (\<lambda>i M. fold (\<lambda>j M. set_sym i j (c i j) M) [i..<n] M) [0..<n]
           (replicate n (replicate n x)))"
    using assms by (simp_all add: fold_upper_pairs set_upper_pairs min.coboundedI1)
qed

lemma fold_sum_upt:
  "fold (\<lambda>k acc. acc + f k) [0..<m] s0 = s0 + (\<Sum>k<m. f k :: float64)"
  by (induction m) (simp_all add: add.assoc)

lemma fold_sum_list: "fold (\<lambda>x acc. acc + x) xs s0 = s0 + (sum_list xs :: float64)"
  by (induction xs arbitrary: s0) (simp_all add: add.assoc)

lemma fold_update3:
  "k \<le> n \<Longrightarrow>
   fold (\<lambda>i (a, b, c). (a[i := f i], b[i := g i], c[i := h i])) [0..<k]
     (replicate n a0, replicate n b0, replicate n c0)
   = (map f [0..<k] @ replicate (n - k) a0, map g [0..<k] @ replicate (n - k) b0,
      map h [0..<k] @ replicate (n - k) c0)"
proof (induction k)
  case 0
  then show ?case by simp
next
  case (Suc k)
  then have k: "k < n" by simp
  have r: "\<And>x. replicate (n - k) x = x # replicate (n - Suc k) x"
    using k by (metis Suc_diff_Suc replicate_Suc)
  show ?case
    using Suc k by (simp add: list_update_append r)
qed

lemma fold_update_replicate:
  "fold (\<lambda>i ys. ys[i := f i]) [0..<n] (replicate n x) = map f [0..<n]"
  using fold_update_all[of "\<lambda>i _. f i" "replicate n x"] by simp

lemma PrepareAssets_eq:
  assumes "\<forall>pd\<in>set priceData. Closes pd \<noteq> []"
  shows "PrepareAssets priceData =
    (let minLen = minLen_of priceData;
         RM = return_matrix priceData;
         n = length priceData
     in Some (map PriceData.Ticker priceData,
              map (\<lambda>r. mean r * Fin 252) RM,
              fold (\<lambda>i M. fold (\<lambda>j M. set_sym i j (covariance_entry (RM ! i) (RM ! j) minLen) M) [i..<n] M)
                [0..<n] (replicate n (replicate n 0)),
              RM,
              map (\<lambda>i. stats_of (priceData ! i) (RM ! i) minLen) [0..<n]))"
proof -
  let ?n = "length priceData"
  let ?aR = "map (\<lambda>pd. returns_of (Closes pd)) priceData"
  let ?minLen = "minLen_of priceData"
  let ?RM = "return_matrix priceData"
  have A: "forM [0..<?n] (\<lambda>i (allReturns, minLen). do {
           r \<leftarrow> Returns (Closes (priceData ! i));
           Some (allReturns[i := r],
                 if int (length r) < minLen then int (length r) else minLen) })
         (replicate ?n [], MaxInt32) = Some (?aR, ?minLen)"
    using PrepareAssets_loopA[OF assms, of ?n] by simp
  have B: "fold (\<lambda>i returnMatrix.
               returnMatrix[i := drop (length (?aR ! i) - nat ?minLen) (?aR ! i)])
         [0..<length ?aR] (replicate ?n []) = ?RM"
  proof -
    have "fold (\<lambda>i returnMatrix.
               returnMatrix[i := drop (length (?aR ! i) - nat ?minLen) (?aR ! i)])
         [0..<?n] (replicate ?n []) = map (\<lambda>i. recent (nat ?minLen) (?aR ! i)) [0..<?n]"
      unfolding recent_def by (rule fold_update_replicate)
    also have "\<dots> = ?RM"
      unfolding return_matrix_def by (rule nth_equalityI) simp_all
    finally show ?thesis by simp
  qed
  have C: "fold (\<lambda>i (tickers, meanReturns, stats).
               (tickers[i := PriceData.Ticker (priceData ! i)],
                meanReturns[i := mean (?RM ! i) * Fin 252],
                stats[i := stats_of (priceData ! i) (?RM ! i) ?minLen]))
         [0..<?n]
         (replicate ?n [], replicate ?n 0,
          replicate ?n \<lparr>AssetStats.Ticker = [], AnnualReturn = 0, AnnualVolatility = 0\<rparr>)
       = (map PriceData.Ticker priceData, map (\<lambda>r. mean r * Fin 252) ?RM,
          map (\<lambda>i. stats_of (priceData ! i) (?RM ! i) ?minLen) [0..<?n])"
  proof -
    have 1: "map (\<lambda>i. PriceData.Ticker (priceData ! i)) [0..<?n] = map PriceData.Ticker priceData"
      by (rule map_upt_nth)
    have "length ?RM = ?n" by (simp add: return_matrix_def)
    then have 2: "map (\<lambda>i. mean (?RM ! i) * Fin 252) [0..<?n] = map (\<lambda>r. mean r * Fin 252) ?RM"
      using map_upt_nth[of "\<lambda>r. mean r * Fin 252" ?RM] by simp
    show ?thesis
      by (simp add: fold_update3 1 2)
  qed
  have D: "\<And>i j. (fold (\<lambda>k cov. cov + (?RM ! i ! k - mean (?RM ! i)) * (?RM ! j ! k - mean (?RM ! j)))
                  [0..<nat ?minLen] 0) / float64_of_int (?minLen - 1) * Fin 252
         = covariance_entry (?RM ! i) (?RM ! j) ?minLen"
    by (simp add: covariance_entry_def fold_sum_upt)
  show ?thesis
    unfolding PrepareAssets_def Let_def A
    apply (simp only: Option.bind.simps prod.case B)
    apply (simp only: variance_of_def[symmetric] stats_of_def[symmetric] C prod.case D set_sym_def[symmetric])
    done
qed

lemma times_float64_commute: "a * b = b * (a::float64)"
  by (cases a; cases b) (simp_all add: mult.commute)

lemma covariance_entry_commute: "covariance_entry a b m = covariance_entry b a m"
  unfolding covariance_entry_def by (simp add: times_float64_commute[of "a ! _ - mean a"])

lemma mean_eq: "mean xs = sum_list xs / Fin (real (length xs))"
  by (simp add: mean_def fold_sum_list)

lemma minLen_of_fold:
  "fold (\<lambda>pd m. if int (length (Closes pd) - 1) < m then int (length (Closes pd) - 1) else m) pds m0 \<le> m0 \<and>
   (\<forall>pd\<in>set pds. fold (\<lambda>pd m. if int (length (Closes pd) - 1) < m then int (length (Closes pd) - 1) else m) pds m0
        \<le> int (length (Closes pd) - 1)) \<and>
   (fold (\<lambda>pd m. if int (length (Closes pd) - 1) < m then int (length (Closes pd) - 1) else m) pds m0 = m0 \<or>
    (\<exists>pd\<in>set pds. fold (\<lambda>pd m. if int (length (Closes pd) - 1) < m then int (length (Closes pd) - 1) else m) pds m0
        = int (length (Closes pd) - 1)))"
proof (induction pds arbitrary: m0)
  case Nil
  then show ?case by simp
next
  case (Cons pd pds)
  let ?f = "\<lambda>pd m. if int (length (Closes pd) - 1) < m then int (length (Closes pd) - 1) else m"
  let ?m1 = "?f pd m0"
  from Cons[of ?m1] have
    1: "fold ?f pds ?m1 \<le> ?m1"
    and 2: "\<forall>pd\<in>set pds. fold ?f pds ?m1 \<le> int (length (Closes pd) - 1)"
    and 3: "fold ?f pds ?m1 = ?m1 \<or> (\<exists>pd\<in>set pds. fold ?f pds ?m1 = int (length (Closes pd) - 1))"
    by blast+
  have m1: "?m1 \<le> m0" "?m1 \<le> int (length (Closes pd) - 1)"
    "?m1 = m0 \<or> ?m1 = int (length (Closes pd) - 1)"
    by auto
  have a: "fold ?f (pd # pds) m0 = fold ?f pds ?m1" by simp
  have "fold ?f pds ?m1 \<le> m0" using 1 m1(1) by linarith
  moreover have "\<forall>q\<in>set (pd # pds). fold ?f pds ?m1 \<le> int (length (Closes q) - 1)"
    using 1 2 m1(2) by auto
  moreover have "fold ?f pds ?m1 = m0 \<or>
      (\<exists>q\<in>set (pd # pds). fold ?f pds ?m1 = int (length (Closes q) - 1))"
    using 3 m1(3) by auto
  ultimately show ?case unfolding a by blast
qed

lemma minLen_of_le:
  "pd \<in> set priceData \<Longrightarrow> minLen_of priceData \<le> int (length (Closes pd) - 1)"
  unfolding minLen_of_def using minLen_of_fold[of priceData MaxInt32] by blast

lemma minLen_of_attained:
  assumes "priceData \<noteq> []" and "\<forall>pd\<in>set priceData. length (Closes pd) \<le> 2147483648"
  shows "\<exists>pd\<in>set priceData. minLen_of priceData = int (length (Closes pd) - 1)"
proof -
  from minLen_of_fold[of priceData MaxInt32] have
    "minLen_of priceData = MaxInt32 \<or>
     (\<exists>pd\<in>set priceData. minLen_of priceData = int (length (Closes pd) - 1))"
    unfolding minLen_of_def by blast
  then show ?thesis
  proof
    assume m: "minLen_of priceData = MaxInt32"
    from assms(1) obtain pd where pd: "pd \<in> set priceData" by (cases priceData) auto
    with minLen_of_le[OF pd] m have "MaxInt32 \<le> int (length (Closes pd) - 1)" by simp
    moreover from assms(2) pd have "int (length (Closes pd) - 1) \<le> MaxInt32"
      by (auto simp: MaxInt32_def)
    ultimately show ?thesis using pd m by force
  qed
qed

lemma minLen_of_nonneg: "0 \<le> minLen_of priceData"
proof -
  from minLen_of_fold[of priceData MaxInt32] have
    "minLen_of priceData = MaxInt32 \<or>
     (\<exists>pd\<in>set priceData. minLen_of priceData = int (length (Closes pd) - 1))"
    unfolding minLen_of_def by blast
  then show ?thesis by (auto simp: MaxInt32_def)
qed

lemma length_return_matrix_row:
  assumes "i < length priceData"
  shows "length (return_matrix priceData ! i) = nat (minLen_of priceData)"
proof -
  have "minLen_of priceData \<le> int (length (Closes (priceData ! i)) - 1)"
    using assms by (intro minLen_of_le) simp
  then show ?thesis
    using assms minLen_of_nonneg[of priceData]
    by (simp add: return_matrix_def recent_def length_returns_of)
qed

lemma is_Fin_plus: "is_Fin a \<Longrightarrow> is_Fin b \<Longrightarrow> is_Fin (a + b)"
  by (cases a; cases b) simp_all

lemma is_Fin_minus: "is_Fin a \<Longrightarrow> is_Fin b \<Longrightarrow> is_Fin (a - b)"
  by (cases a; cases b) (simp_all add: minus_float64_def)

lemma is_Fin_times: "is_Fin a \<Longrightarrow> is_Fin b \<Longrightarrow> is_Fin (a * b)"
  by (cases a; cases b) simp_all

lemma is_Fin_divide: "is_Fin a \<Longrightarrow> x \<noteq> 0 \<Longrightarrow> is_Fin (a / Fin x)"
  by (cases a) simp_all

lemma is_Fin_sum: "(\<And>k. k < m \<Longrightarrow> is_Fin (f k)) \<Longrightarrow> is_Fin (\<Sum>k<(m::nat). f k)"
  by (induction m) (simp_all add: zero_float64_def is_Fin_plus)

lemma is_Fin_sum_list: "list_all is_Fin xs \<Longrightarrow> is_Fin (sum_list xs)"
  by (induction xs) (simp_all add: zero_float64_def is_Fin_plus)

lemma is_Fin_mean: "list_all is_Fin xs \<Longrightarrow> xs \<noteq> [] \<Longrightarrow> is_Fin (mean xs)"
  by (simp add: mean_eq is_Fin_divide is_Fin_sum_list)

lemma is_Fin_returns_of:
  assumes "list_all (\<lambda>p. is_Fin p \<and> 0 < p) prices"
  shows "list_all is_Fin (returns_of prices)"
proof -
  have "is_Fin (Log (prices ! Suc i / prices ! i))" if "Suc i < length prices" for i
  proof -
    from assms that have a: "is_Fin (prices ! i) \<and> 0 < prices ! i"
      and b: "is_Fin (prices ! Suc i) \<and> 0 < prices ! Suc i"
      by (simp_all add: list_all_length)
    obtain x where x: "prices ! i = Fin x" "0 < x"
      using a by (cases "prices ! i") (auto simp: zero_float64_def)
    obtain y where y: "prices ! Suc i = Fin y" "0 < y"
      using b by (cases "prices ! Suc i") (auto simp: zero_float64_def)
    have "0 < y / x" using x y by simp
    then have "\<not> y / x < 0" by (simp add: not_less)
    moreover have "y / x \<noteq> 0" "x \<noteq> 0" using x y by simp_all
    ultimately show ?thesis using x y by simp
  qed
  then show ?thesis
    by (auto simp: returns_of_def list_all_iff)
qed

lemma is_Fin_recent: "list_all is_Fin r \<Longrightarrow> list_all is_Fin (recent m r)"
  by (auto simp: recent_def list_all_iff dest: in_set_dropD)

lemma is_Fin_covariance_entry:
  assumes "list_all is_Fin a" and "list_all is_Fin b"
    and "length a = nat m" and "length b = nat m" and "2 \<le> m"
  shows "is_Fin (covariance_entry a b m)"
proof -
  have ne: "a \<noteq> []" "b \<noteq> []" using assms(3-5) by auto
  have ma: "is_Fin (mean a)" "is_Fin (mean b)"
    using assms(1,2) ne by (simp_all add: is_Fin_mean)
  have "is_Fin ((a ! k - mean a) * (b ! k - mean b))" if "k < nat m" for k
    using that assms(1-4) ma
    by (intro is_Fin_times is_Fin_minus) (simp_all add: list_all_length)
  then have "is_Fin (\<Sum>k<nat m. (a ! k - mean a) * (b ! k - mean b))"
    by (rule is_Fin_sum)
  moreover have "real_of_int (m - 1) \<noteq> 0" using assms(5) by simp
  ultimately show ?thesis
    unfolding covariance_entry_def float64_of_int_def
    by (intro is_Fin_times is_Fin_divide) simp_all
qed

lemma is_Fin_feq: "is_Fin a \<Longrightarrow> feq a a"
  by (cases a) (simp_all add: feq_def)

lemma sum_list_sum_upt: "sum_list (map f xs) = (\<Sum>k<length xs. f (xs ! k) :: float64)"
proof (induction xs rule: rev_induct)
  case Nil
  then show ?case by simp
next
  case (snoc x xs)
  have "(\<Sum>k<length xs. f ((xs @ [x]) ! k)) = (\<Sum>k<length xs. f (xs ! k))"
    by (intro sum.cong) (simp_all add: nth_append)
  then show ?case using snoc by (simp add: add.commute)
qed

lemma variance_covariance:
  assumes "length r = nat m"
  shows "variance_of r m * Fin 252 = covariance_entry r r m"
proof -
  have "fold (\<lambda>x variance. variance + (x - mean r) * (x - mean r)) r 0
      = sum_list (map (\<lambda>x. (x - mean r) * (x - mean r)) r)"
    using fold_sum_list[of "map (\<lambda>x. (x - mean r) * (x - mean r)) r" 0]
    by (simp add: fold_map comp_def)
  also have "\<dots> = (\<Sum>k<length r. (r ! k - mean r) * (r ! k - mean r))"
    by (rule sum_list_sum_upt)
  finally show ?thesis
    by (simp add: variance_of_def covariance_entry_def assms)
qed

lemma PrepareAssets_covMatrix:
  assumes "i < n" and "j < n"
  shows "fold (\<lambda>i M. fold (\<lambda>j M. set_sym i j (covariance_entry (RM ! i) (RM ! j) m) M) [i..<n] M)
           [0..<n] (replicate n (replicate n 0)) ! i ! j
         = covariance_entry (RM ! i) (RM ! j) m"
proof -
  have "fold (\<lambda>i M. fold (\<lambda>j M. set_sym i j (covariance_entry (RM ! i) (RM ! j) m) M) [i..<n] M)
           [0..<n] (replicate n (replicate n 0)) ! i ! j
      = covariance_entry (RM ! min i j) (RM ! max i j) m"
    by (rule symmetric_fill(1)[OF assms, of "\<lambda>i j. covariance_entry (RM ! i) (RM ! j) m"])
  also have "\<dots> = covariance_entry (RM ! i) (RM ! j) m"
    by (cases "i \<le> j") (simp_all add: min_def max_def covariance_entry_commute[of "RM ! j"])
  finally show ?thesis .
qed

text \<open>
  C5, for price series of at least three finite, strictly positive prices. For at least
  two such series \<^verbatim>\<open>PrepareAssets\<close> returns; \<open>minLen\<close> is the shortest return-series
  length; every return series is cut to its \<open>minLen\<close> most recent observations; the
  annualized mean return is the arithmetic mean of these daily log-returns times 252;
  \<open>covMatrix[i][j]\<close> is their sample covariance with divisor \<open>minLen - 1\<close>, times 252; the
  matrix is symmetric under Go's \<^verbatim>\<open>==\<close>; and its diagonal is the daily variance of the
  asset times 252, whose square root is the asset's annualized volatility.
\<close>

theorem PrepareAssets_spec:
  assumes "2 \<le> length priceData" and "list_all valid_prices priceData"
  shows "\<exists>tickers meanReturns covMatrix returnMatrix stats minLen.
     PrepareAssets priceData = Some (tickers, meanReturns, covMatrix, returnMatrix, stats) \<and>
     (\<forall>pd\<in>set priceData. minLen \<le> length (Closes pd) - 1) \<and>
     (\<exists>pd\<in>set priceData. minLen = length (Closes pd) - 1) \<and>
     (\<forall>i<length priceData.
        (\<exists>r. Returns (Closes (priceData ! i)) = Some r \<and> returnMatrix ! i = recent minLen r) \<and>
        length (returnMatrix ! i) = minLen \<and>
        meanReturns ! i = sum_list (returnMatrix ! i) / Fin (real minLen) * Fin 252 \<and>
        covMatrix ! i ! i = variance_of (returnMatrix ! i) (int minLen) * Fin 252 \<and>
        AnnualVolatility (stats ! i) = Sqrt (covMatrix ! i ! i) \<and>
        (\<forall>j<length priceData.
           covMatrix ! i ! j =
             covariance_entry (returnMatrix ! i) (returnMatrix ! j) (int minLen) \<and>
           feq (covMatrix ! i ! j) (covMatrix ! j ! i)))"
proof -
  let ?n = "length priceData"
  let ?m = "minLen_of priceData"
  let ?RM = "return_matrix priceData"
  let ?C = "fold (\<lambda>i M. fold (\<lambda>j M. set_sym i j (covariance_entry (?RM ! i) (?RM ! j) ?m) M) [i..<?n] M)
                [0..<?n] (replicate ?n (replicate ?n 0))"
  have vp: "\<And>pd. pd \<in> set priceData \<Longrightarrow> valid_prices pd"
    using assms(2) by (simp add: list_all_iff)
  have ne: "\<forall>pd\<in>set priceData. Closes pd \<noteq> []"
  proof
    fix pd assume "pd \<in> set priceData"
    from vp[OF this] have "3 \<le> length (Closes pd)" by (simp add: valid_prices_def)
    then show "Closes pd \<noteq> []" by auto
  qed
  have pdne: "priceData \<noteq> []" using assms(1) by auto
  have m0: "0 \<le> ?m" by (rule minLen_of_nonneg)
  have le: "\<forall>pd\<in>set priceData. nat ?m \<le> length (Closes pd) - 1"
    using minLen_of_le[of _ priceData] by (simp add: nat_le_iff)
  have "\<forall>pd\<in>set priceData. length (Closes pd) \<le> 2147483648"
    using vp by (simp add: valid_prices_def)
  from minLen_of_attained[OF pdne this]
  obtain pd0 where pd0: "pd0 \<in> set priceData" "?m = int (length (Closes pd0) - 1)" by blast
  then have att: "\<exists>pd\<in>set priceData. nat ?m = length (Closes pd) - 1" by auto
  have m2: "2 \<le> ?m" using pd0 vp[OF pd0(1)] by (simp add: valid_prices_def)
  have eq: "PrepareAssets priceData =
      Some (map PriceData.Ticker priceData, map (\<lambda>r. mean r * Fin 252) ?RM, ?C, ?RM,
            map (\<lambda>i. stats_of (priceData ! i) (?RM ! i) ?m) [0..<?n])"
    using PrepareAssets_eq[OF ne] by (simp add: Let_def)
  have rows: "(\<exists>r. Returns (Closes (priceData ! i)) = Some r \<and> ?RM ! i = recent (nat ?m) r) \<and>
        length (?RM ! i) = nat ?m \<and>
        map (\<lambda>r. mean r * Fin 252) ?RM ! i = sum_list (?RM ! i) / Fin (real (nat ?m)) * Fin 252 \<and>
        ?C ! i ! i = variance_of (?RM ! i) (int (nat ?m)) * Fin 252 \<and>
        AnnualVolatility (map (\<lambda>i. stats_of (priceData ! i) (?RM ! i) ?m) [0..<?n] ! i) = Sqrt (?C ! i ! i) \<and>
        (\<forall>j<?n. ?C ! i ! j = covariance_entry (?RM ! i) (?RM ! j) (int (nat ?m)) \<and>
                 feq (?C ! i ! j) (?C ! j ! i))"
    if i: "i < ?n" for i
  proof -
    have pdi: "priceData ! i \<in> set priceData" using i by simp
    have len: "length (?RM ! i) = nat ?m" by (rule length_return_matrix_row[OF i])
    have fin: "list_all is_Fin (?RM ! k)" if "k < ?n" for k
    proof -
      have "priceData ! k \<in> set priceData" using that by simp
      from vp[OF this] have "list_all is_Fin (returns_of (Closes (priceData ! k)))"
        by (intro is_Fin_returns_of) (simp add: valid_prices_def)
      then show ?thesis using that by (simp add: return_matrix_def is_Fin_recent)
    qed
    have 1: "\<exists>r. Returns (Closes (priceData ! i)) = Some r \<and> ?RM ! i = recent (nat ?m) r"
      using i ne pdi by (simp add: Returns_returns_of return_matrix_def)
    have 2: "map (\<lambda>r. mean r * Fin 252) ?RM ! i = sum_list (?RM ! i) / Fin (real (nat ?m)) * Fin 252"
      using i len by (simp add: return_matrix_def mean_eq)
    have cij: "?C ! a ! b = covariance_entry (?RM ! a) (?RM ! b) ?m" if "a < ?n" "b < ?n" for a b
      by (rule PrepareAssets_covMatrix[OF that])
    have 3: "?C ! i ! i = variance_of (?RM ! i) (int (nat ?m)) * Fin 252"
      using cij[OF i i] variance_covariance[OF len] m0 by simp
    have 4: "AnnualVolatility (map (\<lambda>i. stats_of (priceData ! i) (?RM ! i) ?m) [0..<?n] ! i) = Sqrt (?C ! i ! i)"
      using i cij[OF i i] variance_covariance[OF len] by (simp add: stats_of_def)
    have 5: "?C ! i ! j = covariance_entry (?RM ! i) (?RM ! j) (int (nat ?m)) \<and> feq (?C ! i ! j) (?C ! j ! i)"
      if j: "j < ?n" for j
    proof -
      have lj: "length (?RM ! j) = nat ?m" by (rule length_return_matrix_row[OF j])
      have "is_Fin (covariance_entry (?RM ! i) (?RM ! j) ?m)"
        by (rule is_Fin_covariance_entry[OF fin[OF i] fin[OF j] len lj m2])
      moreover have "?C ! j ! i = ?C ! i ! j"
        using cij[OF i j] cij[OF j i] by (simp add: covariance_entry_commute[of "?RM ! j"])
      ultimately show ?thesis
        using cij[OF i j] m0 by (simp add: is_Fin_feq)
    qed
    show ?thesis using 1 len 2 3 4 5 by blast
  qed
  show ?thesis
    using eq le att rows by blast
qed

text \<open>The theorem on the two assets of the repository's test.\<close>

theorem PrepareAssets_spec_witness:
  "2 \<le> length test_assets \<and> list_all valid_prices test_assets \<and>
   (\<exists>tickers meanReturns covMatrix returnMatrix stats.
      PrepareAssets test_assets = Some (tickers, meanReturns, covMatrix, returnMatrix, stats) \<and>
      feq (covMatrix ! 0 ! 1) (covMatrix ! 1 ! 0) \<and>
      AnnualVolatility (stats ! 1) = Sqrt (covMatrix ! 1 ! 1))"
proof -
  have l: "2 \<le> length test_assets" by (simp add: test_assets_def)
  have v: "list_all valid_prices test_assets"
    by (simp add: test_assets_def valid_prices_def zero_float64_def)
  from PrepareAssets_spec[OF l v] obtain tickers meanReturns covMatrix returnMatrix stats where
    "PrepareAssets test_assets = Some (tickers, meanReturns, covMatrix, returnMatrix, stats)"
    and r: "\<forall>i<length test_assets.
        AnnualVolatility (stats ! i) = Sqrt (covMatrix ! i ! i) \<and>
        (\<forall>j<length test_assets. feq (covMatrix ! i ! j) (covMatrix ! j ! i))"
    by blast
  moreover have "(0::nat) < length test_assets" "(1::nat) < length test_assets"
    by (simp_all add: test_assets_def)
  ultimately show ?thesis using l v by blast
qed

text \<open>
  C5 as stated, for price series of length 2, fails: one return per asset leaves the
  deviations from the mean at 0 and the divisor \<open>minLen - 1\<close> at 0, so every entry of
  the covariance matrix is \<open>0 / 0 = NaN\<close>, which is not a covariance and not equal to
  itself under \<^verbatim>\<open>==\<close>.
\<close>

theorem PrepareAssets_two_prices_counterexample:
  "\<exists>tickers meanReturns covMatrix returnMatrix stats.
      PrepareAssets short_assets = Some (tickers, meanReturns, covMatrix, returnMatrix, stats) \<and>
      covMatrix ! 0 ! 1 = NaN \<and> \<not> feq (covMatrix ! 0 ! 1) (covMatrix ! 1 ! 0)"
proof -
  have ne: "\<forall>pd\<in>set short_assets. Closes pd \<noteq> []" by (simp add: short_assets_def)
  have m: "minLen_of short_assets = 1"
    by (simp add: minLen_of_def short_assets_def MaxInt32_def)
  have rm: "return_matrix short_assets = [[Fin (ln (105 / 100))], [Fin (ln (110 / 100))]]"
    unfolding return_matrix_def m
    by (simp add: short_assets_def recent_def returns_of_def)
  have c: "covariance_entry [Fin x] [Fin y] 1 = NaN" for x y
    by (simp add: covariance_entry_def mean_def zero_float64_def minus_float64_def float64_of_int_def)
  let ?C = "fold (\<lambda>i M. fold (\<lambda>j M. set_sym i j
                 (covariance_entry (return_matrix short_assets ! i) (return_matrix short_assets ! j) 1) M)
                 [i..<2] M) [0..<2] (replicate 2 (replicate 2 0))"
  have "?C ! 0 ! 1 = covariance_entry (return_matrix short_assets ! 0) (return_matrix short_assets ! 1) 1"
    by (rule PrepareAssets_covMatrix) simp_all
  then have "?C ! 0 ! 1 = NaN" by (simp add: rm c)
  moreover have "length short_assets = 2" by (simp add: short_assets_def)
  ultimately show ?thesis
    using PrepareAssets_eq[OF ne] by (simp add: Let_def m feq_def)
qed

end
